theory Spec2Isabelle
  imports Main "HOL-Library.Word" "HOL-Library.Monad_Syntax"
begin

unbundle bit_operations_syntax

section \<open>Data model of \<^verbatim>\<open>pki_crypto.c\<close>\<close>

text \<open>
  A pointer is an address or NULL (\<open>None\<close>). Bytes are 8-bit words, the \<^verbatim>\<open>int\<close> flags
  of a key are a 32-bit word.
\<close>

type_synonym addr = nat
type_synonym ptr = "addr option"
type_synonym byte = "8 word"

text \<open>\<^verbatim>\<open>enum ssh_keytypes_e\<close>, in the order of the switch statements of the source.\<close>

datatype ssh_keytypes_e =
  SSH_KEYTYPE_UNKNOWN | SSH_KEYTYPE_DSS | SSH_KEYTYPE_RSA | SSH_KEYTYPE_RSA1 | SSH_KEYTYPE_ECDSA

text \<open>
  Modelled from the spec: the header that defines the flag macros is not among the
  sources; the spec gives \<open>flags\<close> as a bit set with the two values PUBLIC and PRIVATE.
\<close>

definition SSH_KEY_FLAG_EMPTY :: "32 word" where
  "SSH_KEY_FLAG_EMPTY = 0"

definition SSH_KEY_FLAG_PUBLIC :: "32 word" where
  "SSH_KEY_FLAG_PUBLIC = 1"

definition SSH_KEY_FLAG_PRIVATE :: "32 word" where
  "SSH_KEY_FLAG_PRIVATE = 2"

text \<open>
  The OpenSSL structs \<^verbatim>\<open>DSA\<close> and \<^verbatim>\<open>RSA\<close>: one BIGNUM pointer per field. A struct is
  the function from its field names to the pointers stored there, so that the source's
  field-by-field copies are instances of one operation.
\<close>

datatype dsa_field = DSA_p | DSA_q | DSA_g | DSA_pub_key | DSA_priv_key

datatype rsa_field =
  RSA_n | RSA_e | RSA_d | RSA_p | RSA_q | RSA_dmp1 | RSA_dmq1 | RSA_iqmp

type_synonym DSA = "dsa_field \<Rightarrow> ptr"
type_synonym RSA = "rsa_field \<Rightarrow> ptr"

text \<open>\<^verbatim>\<open>struct ssh_key_struct\<close>: the fields this file reads and writes.\<close>

record ssh_key_struct =
  key_type :: ssh_keytypes_e
  key_flags :: "32 word"
  key_type_c :: "string option"
  key_dsa :: ptr
  key_rsa :: ptr

text \<open>
  \<^verbatim>\<open>struct ssh_callbacks_struct\<close> and the part of the session this file uses. The
  authentication callback gets the prompt, the buffer, its size, the echo and verify
  flags and the callbacks' userdata; it returns its status and the buffer as it leaves
  it. \<open>error\<close> is the message last stored by \<^verbatim>\<open>ssh_set_error\<close>.
\<close>

type_synonym ssh_auth_callback =
  "string \<Rightarrow> byte list \<Rightarrow> nat \<Rightarrow> int \<Rightarrow> int \<Rightarrow> nat \<Rightarrow> int \<times> byte list"

record ssh_callbacks_struct =
  auth_function :: "ssh_auth_callback option"
  userdata :: nat

text \<open>The three messages this file stores, with the argument of their format string.\<close>

datatype ssh_error =
  Unknown_or_invalid_private_key
| Parsing_private_key string
| Unkown_or_invalid_private_key_type ssh_keytypes_e

record ssh_session_struct =
  callbacks :: "ssh_callbacks_struct option"
  error :: "ssh_error option"

text \<open>
  Calls that leave this file for the cryptographic backend, in the order made. The PEM
  readers are called with a password callback (NULL, or this file's
  \<^verbatim>\<open>pem_get_password\<close>) and a userdata pointer (NULL, the session, or the passphrase).
\<close>

datatype pem_password_cb = Pem_get_password

datatype pem_userdata = U_NULL | U_session ssh_session_struct | U_passphrase string

datatype event =
  Call_PEM_read_bio_DSAPrivateKey "pem_password_cb option" pem_userdata
| Call_PEM_read_bio_RSAPrivateKey "pem_password_cb option" pem_userdata
| Call_DSA_do_sign
| Call_RSA_do_sign

text \<open>
  The memory the functions work on: one store per object type, all addressed from one
  allocator. \<open>brk\<close> is the next address the allocator hands out; \<open>plan\<close> lists the
  outcomes of the coming allocation attempts (\<open>False\<close>: the allocation returns NULL),
  and an exhausted plan lets every further allocation succeed. Freeing an object removes
  it from its store, so that a pointer to it dangles.
\<close>

record mem =
  bns :: "addr \<rightharpoonup> nat"
  dsas :: "addr \<rightharpoonup> DSA"
  rsas :: "addr \<rightharpoonup> RSA"
  keys :: "addr \<rightharpoonup> ssh_key_struct"
  brk :: addr
  plan :: "bool list"
  trace :: "event list"

text \<open>
  Every function returns \<open>None\<close> when the C program would dereference NULL or freed
  memory, or free an object twice (undefined behaviour); otherwise \<open>Some\<close> of its C
  return value and the memory it leaves.
\<close>

definition attempt :: "mem \<Rightarrow> bool \<times> mem" where
  "attempt m = (case plan m of [] \<Rightarrow> (True, m) | b # bs \<Rightarrow> (b, m\<lparr>plan := bs\<rparr>))"

subsection \<open>OpenSSL allocation primitives\<close>

definition BN_new_val :: "mem \<Rightarrow> nat \<Rightarrow> ptr \<times> mem" where
  "BN_new_val m v =
     (case attempt m of
        (False, m1) \<Rightarrow> (None, m1)
      | (True, m1) \<Rightarrow> (Some (brk m1), m1\<lparr>bns := (bns m1)(brk m1 \<mapsto> v), brk := Suc (brk m1)\<rparr>))"

text \<open>\<^verbatim>\<open>BN_dup(NULL)\<close> is NULL.\<close>

definition BN_dup :: "mem \<Rightarrow> ptr \<Rightarrow> (ptr \<times> mem) option" where
  "BN_dup m a =
     (case a of
        None \<Rightarrow> Some (None, m)
      | Some x \<Rightarrow> (case bns m x of None \<Rightarrow> None | Some v \<Rightarrow> Some (BN_new_val m v)))"

definition BN_clear_free :: "mem \<Rightarrow> ptr \<Rightarrow> mem option" where
  "BN_clear_free m a =
     (case a of
        None \<Rightarrow> Some m
      | Some x \<Rightarrow> (case bns m x of None \<Rightarrow> None | Some v \<Rightarrow> Some (m\<lparr>bns := (bns m)(x := None)\<rparr>)))"

fun BN_clear_free_all :: "mem \<Rightarrow> ptr list \<Rightarrow> mem option" where
  "BN_clear_free_all m [] = Some m"
| "BN_clear_free_all m (a # as) =
     (case BN_clear_free m a of None \<Rightarrow> None | Some m1 \<Rightarrow> BN_clear_free_all m1 as)"

definition dsa_fields :: "dsa_field list" where
  "dsa_fields = [DSA_p, DSA_q, DSA_g, DSA_pub_key, DSA_priv_key]"

definition rsa_fields :: "rsa_field list" where
  "rsa_fields = [RSA_n, RSA_e, RSA_d, RSA_p, RSA_q, RSA_dmp1, RSA_dmq1, RSA_iqmp]"

definition DSA_new :: "mem \<Rightarrow> ptr \<times> mem" where
  "DSA_new m =
     (case attempt m of
        (False, m1) \<Rightarrow> (None, m1)
      | (True, m1) \<Rightarrow>
          (Some (brk m1), m1\<lparr>dsas := (dsas m1)(brk m1 \<mapsto> (\<lambda>f. None)), brk := Suc (brk m1)\<rparr>))"

definition RSA_new :: "mem \<Rightarrow> ptr \<times> mem" where
  "RSA_new m =
     (case attempt m of
        (False, m1) \<Rightarrow> (None, m1)
      | (True, m1) \<Rightarrow>
          (Some (brk m1), m1\<lparr>rsas := (rsas m1)(brk m1 \<mapsto> (\<lambda>f. None)), brk := Suc (brk m1)\<rparr>))"

text \<open>\<^verbatim>\<open>DSA_free\<close> and \<^verbatim>\<open>RSA_free\<close> release every BIGNUM of the struct, then the struct.\<close>

definition DSA_free :: "mem \<Rightarrow> ptr \<Rightarrow> mem option" where
  "DSA_free m d =
     (case d of
        None \<Rightarrow> Some m
      | Some x \<Rightarrow>
          (case dsas m x of
             None \<Rightarrow> None
           | Some ds \<Rightarrow>
               (case BN_clear_free_all m (map ds dsa_fields) of
                  None \<Rightarrow> None
                | Some m1 \<Rightarrow> Some (m1\<lparr>dsas := (dsas m1)(x := None)\<rparr>))))"

definition RSA_free :: "mem \<Rightarrow> ptr \<Rightarrow> mem option" where
  "RSA_free m r =
     (case r of
        None \<Rightarrow> Some m
      | Some x \<Rightarrow>
          (case rsas m x of
             None \<Rightarrow> None
           | Some rs \<Rightarrow>
               (case BN_clear_free_all m (map rs rsa_fields) of
                  None \<Rightarrow> None
                | Some m1 \<Rightarrow> Some (m1\<lparr>rsas := (rsas m1)(x := None)\<rparr>))))"

subsection \<open>Key handles\<close>

text \<open>
  Modelled from the spec: \<^verbatim>\<open>ssh_key_new\<close> and \<^verbatim>\<open>ssh_key_free\<close> are defined outside this
  file. A new handle is zero-filled (unknown type, no flags, no payload); releasing a
  handle releases its DSA and RSA payloads and then the handle, and \<^verbatim>\<open>ssh_key_free(NULL)\<close>
  does nothing.
\<close>

definition ssh_key_new :: "mem \<Rightarrow> ptr \<times> mem" where
  "ssh_key_new m =
     (case attempt m of
        (False, m1) \<Rightarrow> (None, m1)
      | (True, m1) \<Rightarrow>
          (Some (brk m1),
           m1\<lparr>keys := (keys m1)(brk m1 \<mapsto>
                 \<lparr>key_type = SSH_KEYTYPE_UNKNOWN, key_flags = SSH_KEY_FLAG_EMPTY,
                  key_type_c = None, key_dsa = None, key_rsa = None\<rparr>),
              brk := Suc (brk m1)\<rparr>))"

definition ssh_key_free :: "mem \<Rightarrow> ptr \<Rightarrow> mem option" where
  "ssh_key_free m k =
     (case k of
        None \<Rightarrow> Some m
      | Some x \<Rightarrow>
          (case keys m x of
             None \<Rightarrow> None
           | Some ks \<Rightarrow>
               (case DSA_free m (key_dsa ks) of
                  None \<Rightarrow> None
                | Some m1 \<Rightarrow>
                    (case RSA_free m1 (key_rsa ks) of
                       None \<Rightarrow> None
                     | Some m2 \<Rightarrow> Some (m2\<lparr>keys := (keys m2)(x := None)\<rparr>)))))"

subsection \<open>Reading and writing through a key handle\<close>

text \<open>\<^verbatim>\<open>key->dsa->f\<close> and \<^verbatim>\<open>key->rsa->f\<close> as rvalues.\<close>

definition get_dsa_field :: "mem \<Rightarrow> addr \<Rightarrow> dsa_field \<Rightarrow> ptr option" where
  "get_dsa_field m k f =
     (case keys m k of
        None \<Rightarrow> None
      | Some ks \<Rightarrow>
          (case key_dsa ks of
             None \<Rightarrow> None
           | Some d \<Rightarrow> (case dsas m d of None \<Rightarrow> None | Some ds \<Rightarrow> Some (ds f))))"

definition get_rsa_field :: "mem \<Rightarrow> addr \<Rightarrow> rsa_field \<Rightarrow> ptr option" where
  "get_rsa_field m k f =
     (case keys m k of
        None \<Rightarrow> None
      | Some ks \<Rightarrow>
          (case key_rsa ks of
             None \<Rightarrow> None
           | Some r \<Rightarrow> (case rsas m r of None \<Rightarrow> None | Some rs \<Rightarrow> Some (rs f))))"

text \<open>\<^verbatim>\<open>key->dsa->f = a\<close> and \<^verbatim>\<open>key->rsa->f = a\<close>.\<close>

definition set_dsa_field :: "mem \<Rightarrow> addr \<Rightarrow> dsa_field \<Rightarrow> ptr \<Rightarrow> mem option" where
  "set_dsa_field m k f a =
     (case keys m k of
        None \<Rightarrow> None
      | Some ks \<Rightarrow>
          (case key_dsa ks of
             None \<Rightarrow> None
           | Some d \<Rightarrow>
               (case dsas m d of
                  None \<Rightarrow> None
                | Some ds \<Rightarrow> Some (m\<lparr>dsas := (dsas m)(d \<mapsto> ds(f := a))\<rparr>))))"

definition set_rsa_field :: "mem \<Rightarrow> addr \<Rightarrow> rsa_field \<Rightarrow> ptr \<Rightarrow> mem option" where
  "set_rsa_field m k f a =
     (case keys m k of
        None \<Rightarrow> None
      | Some ks \<Rightarrow>
          (case key_rsa ks of
             None \<Rightarrow> None
           | Some r \<Rightarrow>
               (case rsas m r of
                  None \<Rightarrow> None
                | Some rs \<Rightarrow> Some (m\<lparr>rsas := (rsas m)(r \<mapsto> rs(f := a))\<rparr>))))"

section \<open>\<^verbatim>\<open>pki_key_dup\<close>\<close>

text \<open>
  A step of a function body that leaves through \<^verbatim>\<open>goto fail\<close>: it yields \<open>False\<close> when the
  jump is taken. \<open>run_steps\<close> runs the steps in order up to the first jump.
\<close>

type_synonym step = "mem \<Rightarrow> (bool \<times> mem) option"

fun run_steps :: "step list \<Rightarrow> step" where
  "run_steps [] m = Some (True, m)"
| "run_steps (f # fs) m =
     (case f m of
        None \<Rightarrow> None
      | Some (False, m1) \<Rightarrow> Some (False, m1)
      | Some (True, m1) \<Rightarrow> run_steps fs m1)"

text \<open>\<^verbatim>\<open>new->dsa = DSA_new(); if (new->dsa == NULL) goto fail;\<close>\<close>

definition dup_DSA_new :: "addr \<Rightarrow> step" where
  "dup_DSA_new new m =
     (case DSA_new m of
        (d, m1) \<Rightarrow>
          (case keys m1 new of
             None \<Rightarrow> None
           | Some kn \<Rightarrow> Some (d \<noteq> None, m1\<lparr>keys := (keys m1)(new \<mapsto> kn\<lparr>key_dsa := d\<rparr>)\<rparr>)))"

definition dup_RSA_new :: "addr \<Rightarrow> step" where
  "dup_RSA_new new m =
     (case RSA_new m of
        (r, m1) \<Rightarrow>
          (case keys m1 new of
             None \<Rightarrow> None
           | Some kn \<Rightarrow> Some (r \<noteq> None, m1\<lparr>keys := (keys m1)(new \<mapsto> kn\<lparr>key_rsa := r\<rparr>)\<rparr>)))"

text \<open>\<^verbatim>\<open>new->dsa->f = BN_dup(key->dsa->f); if (new->dsa->f == NULL) goto fail;\<close>\<close>

definition dup_dsa_field :: "dsa_field \<Rightarrow> addr \<Rightarrow> addr \<Rightarrow> step" where
  "dup_dsa_field f key new m =
     (case get_dsa_field m key f of
        None \<Rightarrow> None
      | Some src \<Rightarrow>
          (case BN_dup m src of
             None \<Rightarrow> None
           | Some (a, m1) \<Rightarrow>
               (case set_dsa_field m1 new f a of
                  None \<Rightarrow> None
                | Some m2 \<Rightarrow> Some (a \<noteq> None, m2))))"

definition dup_rsa_field :: "rsa_field \<Rightarrow> addr \<Rightarrow> addr \<Rightarrow> step" where
  "dup_rsa_field f key new m =
     (case get_rsa_field m key f of
        None \<Rightarrow> None
      | Some src \<Rightarrow>
          (case BN_dup m src of
             None \<Rightarrow> None
           | Some (a, m1) \<Rightarrow>
               (case set_rsa_field m1 new f a of
                  None \<Rightarrow> None
                | Some m2 \<Rightarrow> Some (a \<noteq> None, m2))))"

text \<open>\<^verbatim>\<open>if (key->rsa->f != NULL) { new->rsa->f = BN_dup(key->rsa->f); ... }\<close>\<close>

definition dup_rsa_field_opt :: "rsa_field \<Rightarrow> addr \<Rightarrow> addr \<Rightarrow> step" where
  "dup_rsa_field_opt f key new m =
     (case get_rsa_field m key f of
        None \<Rightarrow> None
      | Some src \<Rightarrow> if src \<noteq> None then dup_rsa_field f key new m else Some (True, m))"

text \<open>The guard \<^verbatim>\<open>if (!demote && (key->flags & SSH_KEY_FLAG_PRIVATE)) { ... }\<close>.\<close>

definition if_private :: "bool \<Rightarrow> addr \<Rightarrow> step list \<Rightarrow> step" where
  "if_private demote key body m =
     (case keys m key of
        None \<Rightarrow> None
      | Some ks \<Rightarrow>
          if \<not> demote \<and> key_flags ks AND SSH_KEY_FLAG_PRIVATE \<noteq> 0
          then run_steps body m else Some (True, m))"

definition dup_dss_body :: "bool \<Rightarrow> addr \<Rightarrow> addr \<Rightarrow> step list" where
  "dup_dss_body demote key new =
     [dup_DSA_new new,
      dup_dsa_field DSA_p key new,
      dup_dsa_field DSA_q key new,
      dup_dsa_field DSA_g key new,
      dup_dsa_field DSA_pub_key key new,
      if_private demote key [dup_dsa_field DSA_priv_key key new]]"

definition dup_rsa_body :: "bool \<Rightarrow> addr \<Rightarrow> addr \<Rightarrow> step list" where
  "dup_rsa_body demote key new =
     [dup_RSA_new new,
      dup_rsa_field RSA_n key new,
      dup_rsa_field RSA_e key new,
      if_private demote key
        [dup_rsa_field RSA_d key new,
         dup_rsa_field_opt RSA_p key new,
         dup_rsa_field_opt RSA_q key new,
         dup_rsa_field_opt RSA_dmp1 key new,
         dup_rsa_field_opt RSA_dmq1 key new,
         dup_rsa_field_opt RSA_iqmp key new]]"

text \<open>
  The switch on \<^verbatim>\<open>key->type\<close>. The ECDSA and UNKNOWN cases free the new handle and
  return NULL, which is what the \<^verbatim>\<open>fail\<close> label does.
\<close>

definition dup_switch :: "bool \<Rightarrow> addr \<Rightarrow> addr \<Rightarrow> ssh_keytypes_e \<Rightarrow> step" where
  "dup_switch demote key new t m =
     (case t of
        SSH_KEYTYPE_DSS \<Rightarrow> run_steps (dup_dss_body demote key new) m
      | SSH_KEYTYPE_RSA \<Rightarrow> run_steps (dup_rsa_body demote key new) m
      | SSH_KEYTYPE_RSA1 \<Rightarrow> run_steps (dup_rsa_body demote key new) m
      | SSH_KEYTYPE_ECDSA \<Rightarrow> Some (False, m)
      | SSH_KEYTYPE_UNKNOWN \<Rightarrow> Some (False, m))"

definition pki_key_dup :: "mem \<Rightarrow> addr \<Rightarrow> bool \<Rightarrow> (ptr \<times> mem) option" where
  "pki_key_dup m key demote =
     (case ssh_key_new m of
        (None, m1) \<Rightarrow> Some (None, m1)
      | (Some new, m1) \<Rightarrow>
          (case keys m1 key of
             None \<Rightarrow> None
           | Some ks \<Rightarrow>
               (case keys m1 new of
                  None \<Rightarrow> None
                | Some kn \<Rightarrow>
                    (case dup_switch demote key new (key_type ks)
                            (m1\<lparr>keys := (keys m1)(new \<mapsto>
                                  kn\<lparr>key_type := key_type ks,
                                     key_type_c := key_type_c ks,
                                     key_flags := key_flags ks\<rparr>)\<rparr>) of
                       None \<Rightarrow> None
                     | Some (True, m2) \<Rightarrow> Some (Some new, m2)
                     | Some (False, m2) \<Rightarrow>
                         (case ssh_key_free m2 (Some new) of
                            None \<Rightarrow> None
                          | Some m3 \<Rightarrow> Some (None, m3))))))"

section \<open>\<^verbatim>\<open>pki_pubkey_build_dss\<close> and \<^verbatim>\<open>pki_pubkey_build_rsa\<close>\<close>

text \<open>
  Modelled from the spec: the return codes and \<^verbatim>\<open>make_string_bn\<close> are defined outside
  this file. \<^verbatim>\<open>make_string_bn\<close> reads a string of bytes as a big-endian integer into a
  new BIGNUM, and returns NULL when that fails.
\<close>

definition SSH_OK :: int where
  "SSH_OK = 0"

definition SSH_ERROR :: int where
  "SSH_ERROR = - 1"

definition bytes_to_nat :: "byte list \<Rightarrow> nat" where
  "bytes_to_nat bs = foldl (\<lambda>acc b. acc * 256 + unat b) 0 bs"

definition make_string_bn :: "mem \<Rightarrow> byte list \<Rightarrow> ptr \<times> mem" where
  "make_string_bn m s = BN_new_val m (bytes_to_nat s)"

text \<open>\<^verbatim>\<open>key->dsa->f = make_string_bn(s);\<close>\<close>

definition build_dsa_field :: "dsa_field \<Rightarrow> byte list \<Rightarrow> addr \<Rightarrow> mem \<Rightarrow> mem option" where
  "build_dsa_field f s key m = (case make_string_bn m s of (a, m1) \<Rightarrow> set_dsa_field m1 key f a)"

definition build_rsa_field :: "rsa_field \<Rightarrow> byte list \<Rightarrow> addr \<Rightarrow> mem \<Rightarrow> mem option" where
  "build_rsa_field f s key m = (case make_string_bn m s of (a, m1) \<Rightarrow> set_rsa_field m1 key f a)"

definition pki_pubkey_build_dss ::
  "mem \<Rightarrow> addr \<Rightarrow> byte list \<Rightarrow> byte list \<Rightarrow> byte list \<Rightarrow> byte list \<Rightarrow> (int \<times> mem) option" where
  "pki_pubkey_build_dss m key p q g pubkey =
     (case DSA_new m of
        (d, m0) \<Rightarrow>
          (case keys m0 key of
             None \<Rightarrow> None
           | Some ks \<Rightarrow>
               let m1 = m0\<lparr>keys := (keys m0)(key \<mapsto> ks\<lparr>key_dsa := d\<rparr>)\<rparr> in
               if d = None then Some (SSH_ERROR, m1)
               else do {
                 m2 \<leftarrow> build_dsa_field DSA_p p key m1;
                 m3 \<leftarrow> build_dsa_field DSA_q q key m2;
                 m4 \<leftarrow> build_dsa_field DSA_g g key m3;
                 m5 \<leftarrow> build_dsa_field DSA_pub_key pubkey key m4;
                 kp \<leftarrow> get_dsa_field m5 key DSA_p;
                 kq \<leftarrow> get_dsa_field m5 key DSA_q;
                 kg \<leftarrow> get_dsa_field m5 key DSA_g;
                 ky \<leftarrow> get_dsa_field m5 key DSA_pub_key;
                 if kp = None \<or> kq = None \<or> kg = None \<or> ky = None
                 then do {
                   k5 \<leftarrow> keys m5 key;
                   m6 \<leftarrow> DSA_free m5 (key_dsa k5);
                   Some (SSH_ERROR, m6)
                 }
                 else Some (SSH_OK, m5)
               }))"

definition pki_pubkey_build_rsa ::
  "mem \<Rightarrow> addr \<Rightarrow> byte list \<Rightarrow> byte list \<Rightarrow> (int \<times> mem) option" where
  "pki_pubkey_build_rsa m key e n =
     (case RSA_new m of
        (r, m0) \<Rightarrow>
          (case keys m0 key of
             None \<Rightarrow> None
           | Some ks \<Rightarrow>
               let m1 = m0\<lparr>keys := (keys m0)(key \<mapsto> ks\<lparr>key_rsa := r\<rparr>)\<rparr> in
               if r = None then Some (SSH_ERROR, m1)
               else do {
                 m2 \<leftarrow> build_rsa_field RSA_e e key m1;
                 m3 \<leftarrow> build_rsa_field RSA_n n key m2;
                 ke \<leftarrow> get_rsa_field m3 key RSA_e;
                 kn \<leftarrow> get_rsa_field m3 key RSA_n;
                 if ke = None \<or> kn = None
                 then do {
                   k3 \<leftarrow> keys m3 key;
                   m4 \<leftarrow> RSA_free m3 (key_rsa k3);
                   Some (SSH_ERROR, m4)
                 }
                 else Some (SSH_OK, m3)
               }))"

section \<open>\<^verbatim>\<open>pki_publickey_to_string\<close>\<close>

text \<open>
  Modelled from the spec: the string and buffer containers and \<^verbatim>\<open>make_bignum_string\<close>
  are defined outside this file. An \<^verbatim>\<open>ssh_string\<close> is its bytes; on the wire it is a
  32-bit big-endian length followed by the bytes. A BIGNUM is written as its minimal
  big-endian magnitude, with one leading zero byte when the top bit of the first byte
  is set. Each of these allocates, and returns NULL (here \<open>None\<close> beside the memory)
  when the allocation fails.
\<close>

definition be32 :: "32 word \<Rightarrow> byte list" where
  "be32 w = [ucast (drop_bit 24 w), ucast (drop_bit 16 w), ucast (drop_bit 8 w), ucast w]"

definition ssh_string_wire :: "byte list \<Rightarrow> byte list" where
  "ssh_string_wire s = be32 (of_nat (length s)) @ s"

fun nat_to_bytes :: "nat \<Rightarrow> byte list" where
  "nat_to_bytes n = (if n = 0 then [] else nat_to_bytes (n div 256) @ [of_nat (n mod 256)])"

definition bignum_bytes :: "nat \<Rightarrow> byte list" where
  "bignum_bytes v =
     (case nat_to_bytes v of
        [] \<Rightarrow> []
      | b # bs \<Rightarrow> if 128 \<le> unat b then 0 # b # bs else b # bs)"

definition bytes_of_string :: "string \<Rightarrow> byte list" where
  "bytes_of_string cs = map (\<lambda>c. of_nat (of_char c)) cs"

text \<open>
  The result of a call that can fail: \<open>None\<close> is undefined behaviour, \<open>Some (None, m)\<close>
  the return of NULL.
\<close>

type_synonym 'a attempted = "('a option \<times> mem) option"

definition new_bytes :: "mem \<Rightarrow> byte list \<Rightarrow> byte list attempted" where
  "new_bytes m s = (case attempt m of (False, m1) \<Rightarrow> Some (None, m1) | (True, m1) \<Rightarrow> Some (Some s, m1))"

definition ssh_buffer_new :: "mem \<Rightarrow> byte list attempted" where
  "ssh_buffer_new m = new_bytes m []"

text \<open>\<^verbatim>\<open>ssh_string_from_char\<close> takes the length of its argument, so NULL is not a valid one.\<close>

definition ssh_string_from_char :: "mem \<Rightarrow> string option \<Rightarrow> byte list attempted" where
  "ssh_string_from_char m what =
     (case what of None \<Rightarrow> None | Some cs \<Rightarrow> new_bytes m (bytes_of_string cs))"

definition buffer_add_ssh_string :: "mem \<Rightarrow> byte list \<Rightarrow> byte list \<Rightarrow> byte list attempted" where
  "buffer_add_ssh_string m buffer s = new_bytes m (buffer @ ssh_string_wire s)"

definition ssh_string_new :: "mem \<Rightarrow> byte list \<Rightarrow> byte list attempted" where
  "ssh_string_new m s = new_bytes m s"

text \<open>\<^verbatim>\<open>make_bignum_string\<close> reads the BIGNUM, so NULL and freed pointers are not valid.\<close>

definition make_bignum_string :: "mem \<Rightarrow> ptr \<Rightarrow> byte list attempted" where
  "make_bignum_string m a =
     (case a of
        None \<Rightarrow> None
      | Some x \<Rightarrow> (case bns m x of None \<Rightarrow> None | Some v \<Rightarrow> new_bytes m (bignum_bytes v)))"

text \<open>\<^verbatim>\<open>make_bignum_string(key->dsa->f)\<close> and \<^verbatim>\<open>make_bignum_string(key->rsa->f)\<close>.\<close>

definition dsa_field_string :: "mem \<Rightarrow> addr \<Rightarrow> dsa_field \<Rightarrow> byte list attempted" where
  "dsa_field_string m key f =
     (case get_dsa_field m key f of None \<Rightarrow> None | Some a \<Rightarrow> make_bignum_string m a)"

definition rsa_field_string :: "mem \<Rightarrow> addr \<Rightarrow> rsa_field \<Rightarrow> byte list attempted" where
  "rsa_field_string m key f =
     (case get_rsa_field m key f of None \<Rightarrow> None | Some a \<Rightarrow> make_bignum_string m a)"

text \<open>
  The local variables \<^verbatim>\<open>str\<close>, \<^verbatim>\<open>e\<close>, \<^verbatim>\<open>n\<close>, \<^verbatim>\<open>p\<close>, \<^verbatim>\<open>g\<close> and \<^verbatim>\<open>q\<close> of the function. Each is
  NULL, as initialised, or points to a live string, or dangles: \<^verbatim>\<open>ssh_string_free\<close>
  releases the string and leaves the variable as it is.
\<close>

datatype ssh_string = String_NULL | String_live "byte list" | String_freed

record to_string_locals =
  l_str :: ssh_string
  l_e :: ssh_string
  l_n :: ssh_string
  l_p :: ssh_string
  l_g :: ssh_string
  l_q :: ssh_string

definition no_strings :: to_string_locals where
  "no_strings =
     \<lparr>l_str = String_NULL, l_e = String_NULL, l_n = String_NULL, l_p = String_NULL,
      l_g = String_NULL, l_q = String_NULL\<rparr>"

text \<open>
  Modelled from the spec: \<^verbatim>\<open>ssh_string_burn\<close> and \<^verbatim>\<open>ssh_string_free\<close> are defined outside
  this file. \<^verbatim>\<open>ssh_string_burn(s); ssh_string_free(s);\<close> does nothing on NULL and wipes and
  releases a live string; on a dangling pointer it writes to released memory and
  releases it a second time.
\<close>

definition ssh_string_release :: "ssh_string \<Rightarrow> ssh_string option" where
  "ssh_string_release s =
     (case s of
        String_NULL \<Rightarrow> Some String_NULL
      | String_live bs \<Rightarrow> Some String_freed
      | String_freed \<Rightarrow> None)"

text \<open>
  The label \<^verbatim>\<open>fail\<close>, lines 468 to 483: the buffer is freed, then \<^verbatim>\<open>str\<close>, \<^verbatim>\<open>e\<close>, \<^verbatim>\<open>p\<close>,
  \<^verbatim>\<open>g\<close>, \<^verbatim>\<open>q\<close> and \<^verbatim>\<open>n\<close> are burnt and freed in this order, and NULL is returned.
\<close>

definition to_string_fail :: "to_string_locals \<Rightarrow> mem \<Rightarrow> byte list attempted" where
  "to_string_fail l m =
     (case those (map ssh_string_release [l_str l, l_e l, l_p l, l_g l, l_q l, l_n l]) of
        None \<Rightarrow> None
      | Some released \<Rightarrow> Some (None, m))"

text \<open>\<^verbatim>\<open>x = call; if (x == NULL) goto fail;\<close> with the local variables as they are at the jump.\<close>

definition orfail ::
  "'a attempted \<Rightarrow> to_string_locals \<Rightarrow> ('a \<Rightarrow> mem \<Rightarrow> byte list attempted) \<Rightarrow> byte list attempted" where
  "orfail x l f =
     (case x of
        None \<Rightarrow> None
      | Some (None, m) \<Rightarrow> to_string_fail l m
      | Some (Some a, m) \<Rightarrow> f a m)"

text \<open>
  The end of the function, from \<^verbatim>\<open>str = ssh_string_new(...)\<close> on: the new string is filled
  with the buffer's bytes and returned; \<^verbatim>\<open>ssh_string_fill\<close> cannot fail on a string
  allocated with the buffer's length. When the allocation fails the function jumps to
  \<^verbatim>\<open>fail\<close> with the local variables as the switch left them.
\<close>

definition to_string_finish :: "byte list \<Rightarrow> to_string_locals \<Rightarrow> mem \<Rightarrow> byte list attempted" where
  "to_string_finish buffer l m = orfail (ssh_string_new m buffer) l (\<lambda>str m1. Some (Some str, m1))"

text \<open>
  The case \<^verbatim>\<open>SSH_KEYTYPE_DSS\<close>, lines 382 to 425. After the four fields are added to the
  buffer, \<^verbatim>\<open>p\<close>, \<^verbatim>\<open>g\<close>, \<^verbatim>\<open>q\<close> and \<^verbatim>\<open>n\<close> are burnt and freed, which leaves the four
  variables dangling.
\<close>

definition to_string_dss :: "addr \<Rightarrow> byte list \<Rightarrow> mem \<Rightarrow> byte list attempted" where
  "to_string_dss key buffer m0 =
     (let l0 = no_strings in
      orfail (dsa_field_string m0 key DSA_p) l0 (\<lambda>p m1.
      let l1 = l0\<lparr>l_p := String_live p\<rparr> in
      orfail (dsa_field_string m1 key DSA_q) l1 (\<lambda>q m2.
      let l2 = l1\<lparr>l_q := String_live q\<rparr> in
      orfail (dsa_field_string m2 key DSA_g) l2 (\<lambda>g m3.
      let l3 = l2\<lparr>l_g := String_live g\<rparr> in
      orfail (dsa_field_string m3 key DSA_pub_key) l3 (\<lambda>n m4.
      let l4 = l3\<lparr>l_n := String_live n\<rparr> in
      orfail (buffer_add_ssh_string m4 buffer p) l4 (\<lambda>b1 m5.
      orfail (buffer_add_ssh_string m5 b1 q) l4 (\<lambda>b2 m6.
      orfail (buffer_add_ssh_string m6 b2 g) l4 (\<lambda>b3 m7.
      orfail (buffer_add_ssh_string m7 b3 n) l4 (\<lambda>b4 m8.
      to_string_finish b4
        (l4\<lparr>l_p := String_freed, l_g := String_freed, l_q := String_freed,
            l_n := String_freed\<rparr>) m8)))))))))"

text \<open>
  The case \<^verbatim>\<open>SSH_KEYTYPE_RSA\<close> and \<^verbatim>\<open>SSH_KEYTYPE_RSA1\<close>, lines 426 to 450, which leaves
  \<^verbatim>\<open>e\<close> and \<^verbatim>\<open>n\<close> dangling.
\<close>

definition to_string_rsa :: "addr \<Rightarrow> byte list \<Rightarrow> mem \<Rightarrow> byte list attempted" where
  "to_string_rsa key buffer m0 =
     (let l0 = no_strings in
      orfail (rsa_field_string m0 key RSA_e) l0 (\<lambda>e m1.
      let l1 = l0\<lparr>l_e := String_live e\<rparr> in
      orfail (rsa_field_string m1 key RSA_n) l1 (\<lambda>n m2.
      let l2 = l1\<lparr>l_n := String_live n\<rparr> in
      orfail (buffer_add_ssh_string m2 buffer e) l2 (\<lambda>b1 m3.
      orfail (buffer_add_ssh_string m3 b1 n) l2 (\<lambda>b2 m4.
      to_string_finish b2 (l2\<lparr>l_e := String_freed, l_n := String_freed\<rparr>) m4)))))"

text \<open>
  The function up to the switch returns NULL directly when an allocation fails; the
  unsupported families jump to \<^verbatim>\<open>fail\<close> with every local variable still NULL.
\<close>

definition pki_publickey_to_string :: "mem \<Rightarrow> addr \<Rightarrow> byte list attempted" where
  "pki_publickey_to_string m key =
     (case ssh_buffer_new m of
        None \<Rightarrow> None
      | Some (None, m0) \<Rightarrow> Some (None, m0)
      | Some (Some buffer, m0) \<Rightarrow>
          (case keys m0 key of
             None \<Rightarrow> None
           | Some ks \<Rightarrow>
               (case ssh_string_from_char m0 (key_type_c ks) of
                  None \<Rightarrow> None
                | Some (None, m1) \<Rightarrow> Some (None, m1)
                | Some (Some type_s, m1) \<Rightarrow>
                    (case buffer_add_ssh_string m1 buffer type_s of
                       None \<Rightarrow> None
                     | Some (None, m2) \<Rightarrow> Some (None, m2)
                     | Some (Some b0, m2) \<Rightarrow>
                         (case key_type ks of
                            SSH_KEYTYPE_DSS \<Rightarrow> to_string_dss key b0 m2
                          | SSH_KEYTYPE_RSA \<Rightarrow> to_string_rsa key b0 m2
                          | SSH_KEYTYPE_RSA1 \<Rightarrow> to_string_rsa key b0 m2
                          | SSH_KEYTYPE_ECDSA \<Rightarrow> to_string_fail no_strings m2
                          | SSH_KEYTYPE_UNKNOWN \<Rightarrow> to_string_fail no_strings m2)))))"

section \<open>\<^verbatim>\<open>pki_do_sign\<close>\<close>

text \<open>What the backend sees of a key: the value of each BIGNUM the struct points to.\<close>

definition bn_val :: "mem \<Rightarrow> ptr \<Rightarrow> nat option" where
  "bn_val m a = (case a of None \<Rightarrow> None | Some x \<Rightarrow> bns m x)"

definition dsa_view :: "mem \<Rightarrow> ptr \<Rightarrow> (dsa_field \<Rightarrow> nat option) option" where
  "dsa_view m d =
     (case d of
        None \<Rightarrow> None
      | Some x \<Rightarrow> (case dsas m x of None \<Rightarrow> None | Some ds \<Rightarrow> Some (\<lambda>f. bn_val m (ds f))))"

definition rsa_view :: "mem \<Rightarrow> ptr \<Rightarrow> (rsa_field \<Rightarrow> nat option) option" where
  "rsa_view m r =
     (case r of
        None \<Rightarrow> None
      | Some x \<Rightarrow> (case rsas m x of None \<Rightarrow> None | Some rs \<Rightarrow> Some (\<lambda>f. bn_val m (rs f))))"

text \<open>
  The functions this file calls and does not define. The signature primitives get the
  digest window and the key; a PEM reader gets the text, the password callback and the
  userdata pointer. Each returns \<open>None\<close> for NULL.
\<close>

record backend =
  ssh_init :: int
  pki_privatekey_type_from_string :: "string \<Rightarrow> ssh_keytypes_e"
  ssh_key_type_to_char :: "ssh_keytypes_e \<Rightarrow> string option"
  PEM_read_bio_DSAPrivateKey ::
    "string \<Rightarrow> pem_password_cb option \<Rightarrow> pem_userdata \<Rightarrow> (dsa_field \<Rightarrow> nat option) option"
  PEM_read_bio_RSAPrivateKey ::
    "string \<Rightarrow> pem_password_cb option \<Rightarrow> pem_userdata \<Rightarrow> (rsa_field \<Rightarrow> nat option) option"
  ERR_error_string :: string
  DSA_do_sign :: "byte list \<Rightarrow> (dsa_field \<Rightarrow> nat option) option \<Rightarrow> (nat \<times> nat) option"
  RSA_do_sign :: "byte list \<Rightarrow> (rsa_field \<Rightarrow> nat option) option \<Rightarrow> byte list option"

text \<open>\<^verbatim>\<open>struct signature_struct\<close>; a DSA signature is the pair (r, s).\<close>

record signature_struct =
  sig_type :: ssh_keytypes_e
  dsa_sign :: "(nat \<times> nat) option"
  rsa_sign :: "byte list option"

text \<open>Modelled from the spec: the digest length macro is defined outside this file.\<close>

definition SHA_DIGEST_LEN :: nat where
  "SHA_DIGEST_LEN = 20"

text \<open>
  The primitive reads \<^verbatim>\<open>SHA_DIGEST_LEN\<close> bytes from \<^verbatim>\<open>hash + 1\<close>: a shorter buffer is read
  beyond its end.
\<close>

definition digest_window :: "byte list \<Rightarrow> byte list option" where
  "digest_window hash =
     (if length hash < 1 + SHA_DIGEST_LEN then None else Some (take SHA_DIGEST_LEN (drop 1 hash)))"

definition log_call :: "event \<Rightarrow> mem \<Rightarrow> mem" where
  "log_call ev m = m\<lparr>trace := trace m @ [ev]\<rparr>"

definition pki_do_sign ::
  "backend \<Rightarrow> mem \<Rightarrow> addr \<Rightarrow> byte list \<Rightarrow> (signature_struct option \<times> mem) option" where
  "pki_do_sign ext m privatekey hash =
     (case attempt m of
        (False, m1) \<Rightarrow> Some (None, m1)
      | (True, m1) \<Rightarrow>
          (case keys m1 privatekey of
             None \<Rightarrow> None
           | Some ks \<Rightarrow>
               (case key_type ks of
                  SSH_KEYTYPE_DSS \<Rightarrow>
                    (case digest_window hash of
                       None \<Rightarrow> None
                     | Some w \<Rightarrow>
                         (case DSA_do_sign ext w (dsa_view m1 (key_dsa ks)) of
                            None \<Rightarrow> Some (None, log_call Call_DSA_do_sign m1)
                          | Some sg \<Rightarrow>
                              Some (Some \<lparr>sig_type = key_type ks, dsa_sign = Some sg,
                                          rsa_sign = None\<rparr>,
                                    log_call Call_DSA_do_sign m1)))
                | SSH_KEYTYPE_RSA \<Rightarrow>
                    (case digest_window hash of
                       None \<Rightarrow> None
                     | Some w \<Rightarrow>
                         (case RSA_do_sign ext w (rsa_view m1 (key_rsa ks)) of
                            None \<Rightarrow> Some (None, log_call Call_RSA_do_sign m1)
                          | Some sg \<Rightarrow>
                              Some (Some \<lparr>sig_type = key_type ks, dsa_sign = None,
                                          rsa_sign = Some sg\<rparr>,
                                    log_call Call_RSA_do_sign m1)))
                | SSH_KEYTYPE_RSA1 \<Rightarrow>
                    (case digest_window hash of
                       None \<Rightarrow> None
                     | Some w \<Rightarrow>
                         (case RSA_do_sign ext w (rsa_view m1 (key_rsa ks)) of
                            None \<Rightarrow> Some (None, log_call Call_RSA_do_sign m1)
                          | Some sg \<Rightarrow>
                              Some (Some \<lparr>sig_type = key_type ks, dsa_sign = None,
                                          rsa_sign = Some sg\<rparr>,
                                    log_call Call_RSA_do_sign m1)))
                | SSH_KEYTYPE_ECDSA \<Rightarrow> Some (None, m1)
                | SSH_KEYTYPE_UNKNOWN \<Rightarrow> Some (None, m1))))"

section \<open>\<^verbatim>\<open>pem_get_password\<close>\<close>

text \<open>
  \<^verbatim>\<open>strlen\<close> on a buffer: the number of bytes before the first zero byte; a buffer without
  one is read beyond its end.
\<close>

definition strlen :: "byte list \<Rightarrow> nat option" where
  "strlen b = (if 0 \<in> set b then Some (length (takeWhile (\<lambda>c. c \<noteq> 0) b)) else None)"

text \<open>
  The callback returns its \<^verbatim>\<open>int\<close> and leaves the buffer: \<open>buf\<close> is NULL or the bytes of
  the caller's buffer, of which \<^verbatim>\<open>memset\<close> clears the first \<open>len\<close> (the parameter \<^verbatim>\<open>size\<close>). The logging call has
  no effect on the result and is left out.
\<close>

definition pem_get_password ::
  "byte list option \<Rightarrow> nat \<Rightarrow> int \<Rightarrow> ssh_session_struct option \<Rightarrow> (int \<times> byte list option) option" where
  "pem_get_password buf len rwflag session =
     (case buf of
        None \<Rightarrow> Some (0, None)
      | Some b \<Rightarrow>
          if length b < len then None
          else
            let b0 = replicate len 0 @ drop len b in
            (case session of
               None \<Rightarrow> Some (0, Some b0)
             | Some ses \<Rightarrow>
                 (case callbacks ses of
                    None \<Rightarrow> Some (0, Some b0)
                  | Some cbs \<Rightarrow>
                      (case auth_function cbs of
                         None \<Rightarrow> Some (0, Some b0)
                       | Some af \<Rightarrow>
                           (case af ''Passphrase for private key:'' b0 len 0 0 (userdata cbs) of
                              (rc, b1) \<Rightarrow>
                                if rc = 0
                                then (case strlen b1 of
                                        None \<Rightarrow> None
                                      | Some n \<Rightarrow> Some (int n, Some b1))
                                else Some (0, Some b1))))))"

section \<open>\<^verbatim>\<open>pki_private_key_from_base64\<close>\<close>

text \<open>
  A key read by the backend is placed in memory: one BIGNUM per field that has a value,
  then the struct. These allocations are the backend's, which reports its failures by
  returning NULL, so they do not consult the plan.
\<close>

fun install_bns :: "mem \<Rightarrow> 'f list \<Rightarrow> ('f \<Rightarrow> nat option) \<Rightarrow> ('f \<Rightarrow> ptr) \<Rightarrow> ('f \<Rightarrow> ptr) \<times> mem" where
  "install_bns m [] vals st = (st, m)"
| "install_bns m (f # fs) vals st =
     (case vals f of
        None \<Rightarrow> install_bns m fs vals st
      | Some v \<Rightarrow>
          install_bns (m\<lparr>bns := (bns m)(brk m \<mapsto> v), brk := Suc (brk m)\<rparr>) fs vals
            (st(f := Some (brk m))))"

definition install_dsa :: "mem \<Rightarrow> (dsa_field \<Rightarrow> nat option) \<Rightarrow> addr \<times> mem" where
  "install_dsa m vals =
     (case install_bns m dsa_fields vals (\<lambda>f. None) of
        (ds, m1) \<Rightarrow> (brk m1, m1\<lparr>dsas := (dsas m1)(brk m1 \<mapsto> ds), brk := Suc (brk m1)\<rparr>))"

definition install_rsa :: "mem \<Rightarrow> (rsa_field \<Rightarrow> nat option) \<Rightarrow> addr \<times> mem" where
  "install_rsa m vals =
     (case install_bns m rsa_fields vals (\<lambda>f. None) of
        (rs, m1) \<Rightarrow> (brk m1, m1\<lparr>rsas := (rsas m1)(brk m1 \<mapsto> rs), brk := Suc (brk m1)\<rparr>))"

text \<open>
  The callback and userdata arguments of the PEM reader, lines 235 to 244 (and the same
  at 258 to 267): the passphrase when one is given; else the session's callback when the
  session has an authentication function; else NULL and NULL, which makes the backend
  use its own prompt.
\<close>

definition pem_arguments ::
  "ssh_session_struct \<Rightarrow> string option \<Rightarrow> pem_password_cb option \<times> pem_userdata" where
  "pem_arguments session passphrase =
     (case passphrase of
        None \<Rightarrow>
          (case callbacks session of
             None \<Rightarrow> (None, U_NULL)
           | Some cbs \<Rightarrow>
               if auth_function cbs \<noteq> None then (Some Pem_get_password, U_session session)
               else (None, U_NULL))
      | Some pw \<Rightarrow> (None, U_passphrase pw))"

definition ssh_set_error :: "ssh_session_struct \<Rightarrow> ssh_error \<Rightarrow> ssh_session_struct" where
  "ssh_set_error session e = session\<lparr>error := Some e\<rparr>"

text \<open>The end of the function, from \<^verbatim>\<open>key = ssh_key_new()\<close> on, with the \<^verbatim>\<open>fail\<close> label.\<close>

definition decoded_key ::
  "backend \<Rightarrow> ssh_keytypes_e \<Rightarrow> ptr \<Rightarrow> ptr \<Rightarrow> mem \<Rightarrow> (ptr \<times> mem) option" where
  "decoded_key ext type dsa rsa m =
     (case ssh_key_new m of
        (None, m1) \<Rightarrow> do {
          m2 \<leftarrow> ssh_key_free m1 None;
          m3 \<leftarrow> DSA_free m2 dsa;
          m4 \<leftarrow> RSA_free m3 rsa;
          Some (None, m4)
        }
      | (Some key, m1) \<Rightarrow>
          (case keys m1 key of
             None \<Rightarrow> None
           | Some ks \<Rightarrow>
               Some (Some key,
                     m1\<lparr>keys := (keys m1)(key \<mapsto>
                          ks\<lparr>key_type := type,
                             key_type_c := ssh_key_type_to_char ext type,
                             key_flags := SSH_KEY_FLAG_PRIVATE OR SSH_KEY_FLAG_PUBLIC,
                             key_dsa := dsa,
                             key_rsa := rsa\<rparr>)\<rparr>)))"

definition read_dsa_key ::
  "backend \<Rightarrow> mem \<Rightarrow> ssh_session_struct \<Rightarrow> string \<Rightarrow> string option \<Rightarrow> ssh_keytypes_e \<Rightarrow>
   (ptr \<times> ssh_session_struct \<times> mem) option" where
  "read_dsa_key ext m session b64_key passphrase type =
     (case pem_arguments session passphrase of
        (cb, u) \<Rightarrow>
          (case PEM_read_bio_DSAPrivateKey ext b64_key cb u of
             None \<Rightarrow>
               Some (None, ssh_set_error session (Parsing_private_key (ERR_error_string ext)),
                     log_call (Call_PEM_read_bio_DSAPrivateKey cb u) m)
           | Some vals \<Rightarrow>
               (case install_dsa (log_call (Call_PEM_read_bio_DSAPrivateKey cb u) m) vals of
                  (dsa, m1) \<Rightarrow>
                    (case decoded_key ext type (Some dsa) None m1 of
                       None \<Rightarrow> None
                     | Some (key, m2) \<Rightarrow> Some (key, session, m2)))))"

definition read_rsa_key ::
  "backend \<Rightarrow> mem \<Rightarrow> ssh_session_struct \<Rightarrow> string \<Rightarrow> string option \<Rightarrow> ssh_keytypes_e \<Rightarrow>
   (ptr \<times> ssh_session_struct \<times> mem) option" where
  "read_rsa_key ext m session b64_key passphrase type =
     (case pem_arguments session passphrase of
        (cb, u) \<Rightarrow>
          (case PEM_read_bio_RSAPrivateKey ext b64_key cb u of
             None \<Rightarrow>
               Some (None, ssh_set_error session (Parsing_private_key (ERR_error_string ext)),
                     log_call (Call_PEM_read_bio_RSAPrivateKey cb u) m)
           | Some vals \<Rightarrow>
               (case install_rsa (log_call (Call_PEM_read_bio_RSAPrivateKey cb u) m) vals of
                  (rsa, m1) \<Rightarrow>
                    (case decoded_key ext type None (Some rsa) m1 of
                       None \<Rightarrow> None
                     | Some (key, m2) \<Rightarrow> Some (key, session, m2)))))"

text \<open>
  The session is a valid pointer (the function stores its error messages there); the
  function returns the key, and leaves the session and the memory. The memory BIO over
  the text belongs to the backend's reading of it.
\<close>

definition pki_private_key_from_base64 ::
  "backend \<Rightarrow> mem \<Rightarrow> ssh_session_struct \<Rightarrow> string \<Rightarrow> string option \<Rightarrow>
   (ptr \<times> ssh_session_struct \<times> mem) option" where
  "pki_private_key_from_base64 ext m session b64_key passphrase =
     (if ssh_init ext < 0 then Some (None, session, m)
      else
        let type = pki_privatekey_type_from_string ext b64_key in
        if type = SSH_KEYTYPE_UNKNOWN
        then Some (None, ssh_set_error session Unknown_or_invalid_private_key, m)
        else
          (case type of
             SSH_KEYTYPE_DSS \<Rightarrow> read_dsa_key ext m session b64_key passphrase type
           | SSH_KEYTYPE_RSA \<Rightarrow> read_rsa_key ext m session b64_key passphrase type
           | SSH_KEYTYPE_RSA1 \<Rightarrow> read_rsa_key ext m session b64_key passphrase type
           | SSH_KEYTYPE_ECDSA \<Rightarrow>
               Some (None, ssh_set_error session (Unkown_or_invalid_private_key_type type), m)
           | SSH_KEYTYPE_UNKNOWN \<Rightarrow>
               Some (None, ssh_set_error session (Unkown_or_invalid_private_key_type type), m)))"

section \<open>A concrete memory\<close>

text \<open>
  Five key handles below the break at 40: a private DSA key at 0, a private RSA key at 2
  (with one of the optional factors), a public DSA key at 4, a handle of type ECDSA at 6
  and an empty public RSA handle at 7.
\<close>

definition ex_dsa_private :: DSA where
  "ex_dsa_private f =
     (case f of DSA_p \<Rightarrow> Some 10 | DSA_q \<Rightarrow> Some 11 | DSA_g \<Rightarrow> Some 12
      | DSA_pub_key \<Rightarrow> Some 13 | DSA_priv_key \<Rightarrow> Some 14)"

definition ex_rsa_private :: RSA where
  "ex_rsa_private f =
     (case f of RSA_n \<Rightarrow> Some 20 | RSA_e \<Rightarrow> Some 21 | RSA_d \<Rightarrow> Some 22 | RSA_p \<Rightarrow> Some 23
      | RSA_q \<Rightarrow> None | RSA_dmp1 \<Rightarrow> None | RSA_dmq1 \<Rightarrow> None | RSA_iqmp \<Rightarrow> None)"

definition ex_dsa_public :: DSA where
  "ex_dsa_public f =
     (case f of DSA_p \<Rightarrow> Some 30 | DSA_q \<Rightarrow> Some 31 | DSA_g \<Rightarrow> Some 32
      | DSA_pub_key \<Rightarrow> Some 33 | DSA_priv_key \<Rightarrow> None)"

definition ex_mem :: mem where
  "ex_mem =
     \<lparr>bns = [10 \<mapsto> 23, 11 \<mapsto> 11, 12 \<mapsto> 4, 13 \<mapsto> 8, 14 \<mapsto> 7,
             20 \<mapsto> 3233, 21 \<mapsto> 17, 22 \<mapsto> 2753, 23 \<mapsto> 61,
             30 \<mapsto> 23, 31 \<mapsto> 11, 32 \<mapsto> 4, 33 \<mapsto> 200],
      dsas = [1 \<mapsto> ex_dsa_private, 5 \<mapsto> ex_dsa_public],
      rsas = [3 \<mapsto> ex_rsa_private],
      keys =
        [0 \<mapsto> \<lparr>key_type = SSH_KEYTYPE_DSS,
                key_flags = SSH_KEY_FLAG_PRIVATE OR SSH_KEY_FLAG_PUBLIC,
                key_type_c = Some ''ssh-dss'', key_dsa = Some 1, key_rsa = None\<rparr>,
         2 \<mapsto> \<lparr>key_type = SSH_KEYTYPE_RSA,
                key_flags = SSH_KEY_FLAG_PRIVATE OR SSH_KEY_FLAG_PUBLIC,
                key_type_c = Some ''ssh-rsa'', key_dsa = None, key_rsa = Some 3\<rparr>,
         4 \<mapsto> \<lparr>key_type = SSH_KEYTYPE_DSS, key_flags = SSH_KEY_FLAG_PUBLIC,
                key_type_c = Some ''ssh-dss'', key_dsa = Some 5, key_rsa = None\<rparr>,
         6 \<mapsto> \<lparr>key_type = SSH_KEYTYPE_ECDSA, key_flags = SSH_KEY_FLAG_PUBLIC,
                key_type_c = Some ''ssh-ecdsa'', key_dsa = None, key_rsa = None\<rparr>,
         7 \<mapsto> \<lparr>key_type = SSH_KEYTYPE_RSA, key_flags = SSH_KEY_FLAG_PUBLIC,
                key_type_c = Some ''ssh-rsa'', key_dsa = None, key_rsa = None\<rparr>],
      brk = 40, plan = [], trace = []\<rparr>"

text \<open>
  A backend for the examples: it classifies a text by its first character, reads a DSA
  key when it is given the passphrase \<open>pw\<close> and no key otherwise, and signs every digest
  with fixed values.
\<close>

definition ex_backend :: backend where
  "ex_backend =
     \<lparr>ssh_init = 0,
      pki_privatekey_type_from_string =
        (\<lambda>s. if s = ''D'' then SSH_KEYTYPE_DSS else if s = ''R'' then SSH_KEYTYPE_RSA
             else if s = ''E'' then SSH_KEYTYPE_ECDSA else SSH_KEYTYPE_UNKNOWN),
      ssh_key_type_to_char =
        (\<lambda>t. case t of SSH_KEYTYPE_DSS \<Rightarrow> Some ''ssh-dss'' | SSH_KEYTYPE_RSA \<Rightarrow> Some ''ssh-rsa''
             | SSH_KEYTYPE_RSA1 \<Rightarrow> Some ''ssh-rsa1'' | SSH_KEYTYPE_ECDSA \<Rightarrow> Some ''ssh-ecdsa''
             | SSH_KEYTYPE_UNKNOWN \<Rightarrow> None),
      PEM_read_bio_DSAPrivateKey =
        (\<lambda>s cb u. case u of
                    U_passphrase pw \<Rightarrow> if pw = ''pw'' then Some (\<lambda>f. Some 7) else None
                  | U_session ses \<Rightarrow> None
                  | U_NULL \<Rightarrow> None),
      PEM_read_bio_RSAPrivateKey = (\<lambda>s cb u. None),
      ERR_error_string = ''error'',
      DSA_do_sign = (\<lambda>w k. Some (1, 2)),
      RSA_do_sign = (\<lambda>w k. Some [1, 2, 3])\<rparr>"

text \<open>
  Two providers: one rejects the request, one accepts it and writes the empty
  passphrase; and a session for each.
\<close>

definition ex_reject :: ssh_auth_callback where
  "ex_reject prompt buf len echo verify ud = (- 1, buf)"

definition ex_empty :: ssh_auth_callback where
  "ex_empty prompt buf len echo verify ud = (0, buf)"

definition ex_secret :: ssh_auth_callback where
  "ex_secret prompt buf len echo verify ud = (0, [115, 51] @ drop 2 buf)"

definition ex_session :: "ssh_auth_callback option \<Rightarrow> ssh_session_struct" where
  "ex_session af = \<lparr>callbacks = Some \<lparr>auth_function = af, userdata = 0\<rparr>, error = None\<rparr>"

section \<open>Notions used in the statements\<close>

definition supported :: "ssh_keytypes_e \<Rightarrow> bool" where
  "supported t = (t = SSH_KEYTYPE_DSS \<or> t = SSH_KEYTYPE_RSA \<or> t = SSH_KEYTYPE_RSA1)"

definition unsupported :: "ssh_keytypes_e \<Rightarrow> bool" where
  "unsupported t = (t = SSH_KEYTYPE_ECDSA \<or> t = SSH_KEYTYPE_UNKNOWN)"

text \<open>The session has a provider: a callbacks struct with an authentication function.\<close>

definition has_provider :: "ssh_session_struct \<Rightarrow> bool" where
  "has_provider session =
     (case callbacks session of None \<Rightarrow> False | Some cbs \<Rightarrow> auth_function cbs \<noteq> None)"

definition pem_call :: "ssh_keytypes_e \<Rightarrow> pem_password_cb option \<Rightarrow> pem_userdata \<Rightarrow> event" where
  "pem_call t cb u =
     (if t = SSH_KEYTYPE_DSS then Call_PEM_read_bio_DSAPrivateKey cb u
      else Call_PEM_read_bio_RSAPrivateKey cb u)"

definition sign_call :: "ssh_keytypes_e \<Rightarrow> event" where
  "sign_call t = (if t = SSH_KEYTYPE_DSS then Call_DSA_do_sign else Call_RSA_do_sign)"

text \<open>What the signature primitive of the key's family returns on the key's payload.\<close>

definition primitive_signature ::
  "backend \<Rightarrow> mem \<Rightarrow> ssh_key_struct \<Rightarrow> byte list \<Rightarrow> signature_struct option" where
  "primitive_signature ext m ks w =
     (if key_type ks = SSH_KEYTYPE_DSS
      then map_option (\<lambda>sg. \<lparr>sig_type = key_type ks, dsa_sign = Some sg, rsa_sign = None\<rparr>)
             (DSA_do_sign ext w (dsa_view m (key_dsa ks)))
      else map_option (\<lambda>sg. \<lparr>sig_type = key_type ks, dsa_sign = None, rsa_sign = Some sg\<rparr>)
             (RSA_do_sign ext w (rsa_view m (key_rsa ks))))"

section \<open>Notions for the duplicator\<close>

text \<open>
  The allocator's invariant: every allocated object lies below the break, and so does
  every pointer stored in a struct or a handle. Pointers may dangle (point to freed
  objects), but none points to an address not yet handed out.
\<close>

definition ptr_below :: "addr \<Rightarrow> ptr \<Rightarrow> bool" where
  "ptr_below b a = (case a of None \<Rightarrow> True | Some x \<Rightarrow> x < b)"

definition mem_ok :: "mem \<Rightarrow> bool" where
  "mem_ok m =
     (\<forall>a. (\<forall>v. bns m a = Some v \<longrightarrow> a < brk m)
        \<and> (\<forall>ds. dsas m a = Some ds \<longrightarrow> a < brk m \<and> (\<forall>f. ptr_below (brk m) (ds f)))
        \<and> (\<forall>rs. rsas m a = Some rs \<longrightarrow> a < brk m \<and> (\<forall>f. ptr_below (brk m) (rs f)))
        \<and> (\<forall>ks. keys m a = Some ks \<longrightarrow>
              a < brk m \<and> ptr_below (brk m) (key_dsa ks) \<and> ptr_below (brk m) (key_rsa ks)))"

text \<open>The numeric values of the struct at an address, field by field.\<close>

definition dsa_vals :: "mem \<Rightarrow> addr \<Rightarrow> dsa_field \<Rightarrow> nat option" where
  "dsa_vals m x f = (case dsas m x of None \<Rightarrow> None | Some ds \<Rightarrow> bn_val m (ds f))"

definition rsa_vals :: "mem \<Rightarrow> addr \<Rightarrow> rsa_field \<Rightarrow> nat option" where
  "rsa_vals m x f = (case rsas m x of None \<Rightarrow> None | Some rs \<Rightarrow> bn_val m (rs f))"

text \<open>
  What a handle denotes: its family, flags and type name, and the numeric values of its
  DSA and RSA payloads (\<open>None\<close> for a payload that is not there).
\<close>

record key_value =
  kv_type :: ssh_keytypes_e
  kv_flags :: "32 word"
  kv_type_c :: "string option"
  kv_dsa :: "(dsa_field \<Rightarrow> nat option) option"
  kv_rsa :: "(rsa_field \<Rightarrow> nat option) option"

definition key_view :: "mem \<Rightarrow> addr \<Rightarrow> key_value option" where
  "key_view m k =
     map_option
       (\<lambda>ks. \<lparr>kv_type = key_type ks, kv_flags = key_flags ks, kv_type_c = key_type_c ks,
              kv_dsa = dsa_view m (key_dsa ks), kv_rsa = rsa_view m (key_rsa ks)\<rparr>)
       (keys m k)"

text \<open>
  What a duplicate is to denote: the family, type name and flags of the source; the
  public fields of the family's payload; the private fields (for RSA the private
  exponent and the optional factors and coefficients) when the source is PRIVATE and no
  demotion is asked for; nothing of the other family. Without demotion this is the
  duplicate of the spec. The flags are taken over as they are, which is what the code
  does under demotion too.
\<close>

definition private_kept :: "bool \<Rightarrow> 32 word \<Rightarrow> bool" where
  "private_kept demote fl = (\<not> demote \<and> fl AND SSH_KEY_FLAG_PRIVATE \<noteq> 0)"

definition dsa_copy :: "bool \<Rightarrow> (dsa_field \<Rightarrow> nat option) \<Rightarrow> dsa_field \<Rightarrow> nat option" where
  "dsa_copy priv v f = (if f = DSA_priv_key \<and> \<not> priv then None else v f)"

definition rsa_copy :: "bool \<Rightarrow> (rsa_field \<Rightarrow> nat option) \<Rightarrow> rsa_field \<Rightarrow> nat option" where
  "rsa_copy priv v f = (if f = RSA_n \<or> f = RSA_e \<or> priv then v f else None)"

definition dup_value :: "bool \<Rightarrow> key_value \<Rightarrow> key_value" where
  "dup_value demote kv =
     kv\<lparr>kv_dsa :=
          (if kv_type kv = SSH_KEYTYPE_DSS
           then map_option (dsa_copy (private_kept demote (kv_flags kv))) (kv_dsa kv)
           else None),
        kv_rsa :=
          (if kv_type kv = SSH_KEYTYPE_RSA \<or> kv_type kv = SSH_KEYTYPE_RSA1
           then map_option (rsa_copy (private_kept demote (kv_flags kv))) (kv_rsa kv)
           else None)\<rparr>"

text \<open>
  Modelled from the spec: the invariants of a key handle, as far as the duplicator
  depends on them. Only the payload of the handle's family is populated, and a handle
  that is not PRIVATE has no secret field.
\<close>

definition secrets_absent :: "key_value \<Rightarrow> bool" where
  "secrets_absent kv =
     ((case kv_dsa kv of None \<Rightarrow> True | Some v \<Rightarrow> v DSA_priv_key = None) \<and>
      (case kv_rsa kv of
         None \<Rightarrow> True
       | Some v \<Rightarrow>
           list_all (\<lambda>f. v f = None) [RSA_d, RSA_p, RSA_q, RSA_dmp1, RSA_dmq1, RSA_iqmp]))"

definition key_inv :: "key_value \<Rightarrow> bool" where
  "key_inv kv =
     ((kv_type kv = SSH_KEYTYPE_DSS \<longrightarrow> kv_rsa kv = None) \<and>
      (kv_type kv = SSH_KEYTYPE_RSA \<or> kv_type kv = SSH_KEYTYPE_RSA1 \<longrightarrow> kv_dsa kv = None) \<and>
      (kv_flags kv AND SSH_KEY_FLAG_PRIVATE = 0 \<longrightarrow> secrets_absent kv))"

text \<open>
  The state of a duplicate under construction, relative to the memory \<open>m0\<close> at the start
  of the switch: the handles are \<open>K\<close>, the new struct is at \<open>np\<close> and holds the values
  \<open>V\<close>, and every other struct denotes what it denoted in \<open>m0\<close>.
\<close>

definition dsa_progress ::
  "mem \<Rightarrow> (addr \<rightharpoonup> ssh_key_struct) \<Rightarrow> addr \<Rightarrow> mem \<Rightarrow> (dsa_field \<Rightarrow> nat option) \<Rightarrow> bool" where
  "dsa_progress m0 K np m V =
     (mem_ok m \<and> keys m = K \<and> rsas m = rsas m0 \<and> rsa_vals m = rsa_vals m0 \<and>
      dom (dsas m) = insert np (dom (dsas m0)) \<and> dsa_vals m = (dsa_vals m0)(np := V))"

definition rsa_progress ::
  "mem \<Rightarrow> (addr \<rightharpoonup> ssh_key_struct) \<Rightarrow> addr \<Rightarrow> mem \<Rightarrow> (rsa_field \<Rightarrow> nat option) \<Rightarrow> bool" where
  "rsa_progress m0 K np m V =
     (mem_ok m \<and> keys m = K \<and> dsas m = dsas m0 \<and> dsa_vals m = dsa_vals m0 \<and>
      dom (rsas m) = insert np (dom (rsas m0)) \<and> rsa_vals m = (rsa_vals m0)(np := V))"

text \<open>
  A source handle that the duplicator can copy: its payload struct is allocated, the
  fields the copy needs are allocated BIGNUMs (the private ones when the handle is
  PRIVATE), and each optional RSA field is NULL or an allocated BIGNUM.
\<close>

definition bn_ok :: "mem \<Rightarrow> ptr \<Rightarrow> bool" where
  "bn_ok m a = (case a of None \<Rightarrow> False | Some x \<Rightarrow> bns m x \<noteq> None)"

definition bn_ok_or_null :: "mem \<Rightarrow> ptr \<Rightarrow> bool" where
  "bn_ok_or_null m a = (case a of None \<Rightarrow> True | Some x \<Rightarrow> bns m x \<noteq> None)"

definition dsa_ready :: "mem \<Rightarrow> ssh_key_struct \<Rightarrow> bool" where
  "dsa_ready m ks =
     (case key_dsa ks of
        None \<Rightarrow> False
      | Some sp \<Rightarrow>
          (case dsas m sp of
             None \<Rightarrow> False
           | Some st \<Rightarrow>
               bn_ok m (st DSA_p) \<and> bn_ok m (st DSA_q) \<and> bn_ok m (st DSA_g) \<and>
               bn_ok m (st DSA_pub_key) \<and>
               (key_flags ks AND SSH_KEY_FLAG_PRIVATE = 0 \<or> bn_ok m (st DSA_priv_key))))"

definition rsa_ready :: "mem \<Rightarrow> ssh_key_struct \<Rightarrow> bool" where
  "rsa_ready m ks =
     (case key_rsa ks of
        None \<Rightarrow> False
      | Some sp \<Rightarrow>
          (case rsas m sp of
             None \<Rightarrow> False
           | Some st \<Rightarrow>
               bn_ok m (st RSA_n) \<and> bn_ok m (st RSA_e) \<and>
               (key_flags ks AND SSH_KEY_FLAG_PRIVATE = 0 \<or>
                bn_ok m (st RSA_d) \<and>
                list_all (\<lambda>f. bn_ok_or_null m (st f))
                  [RSA_p, RSA_q, RSA_dmp1, RSA_dmq1, RSA_iqmp])))"

definition dup_ready :: "mem \<Rightarrow> ssh_key_struct \<Rightarrow> bool" where
  "dup_ready m ks =
     (case key_type ks of
        SSH_KEYTYPE_DSS \<Rightarrow> dsa_ready m ks
      | SSH_KEYTYPE_RSA \<Rightarrow> rsa_ready m ks
      | SSH_KEYTYPE_RSA1 \<Rightarrow> rsa_ready m ks
      | SSH_KEYTYPE_ECDSA \<Rightarrow> False
      | SSH_KEYTYPE_UNKNOWN \<Rightarrow> False)"

text \<open>
  The state of a duplicate under construction when no allocation fails: nothing below
  the break of \<open>m0\<close> has changed, the source struct at \<open>sp\<close> is as it was, and the new
  struct at \<open>np\<close> is allocated.
\<close>

definition dsa_stable ::
  "mem \<Rightarrow> (addr \<rightharpoonup> ssh_key_struct) \<Rightarrow> addr \<Rightarrow> addr \<Rightarrow> mem \<Rightarrow> bool" where
  "dsa_stable m0 K sp np m =
     (plan m = [] \<and> keys m = K \<and> brk m0 \<le> brk m \<and> (\<forall>x<brk m0. bns m x = bns m0 x) \<and>
      dsas m sp = dsas m0 sp \<and> dsas m np \<noteq> None)"

definition rsa_stable ::
  "mem \<Rightarrow> (addr \<rightharpoonup> ssh_key_struct) \<Rightarrow> addr \<Rightarrow> addr \<Rightarrow> mem \<Rightarrow> bool" where
  "rsa_stable m0 K sp np m =
     (plan m = [] \<and> keys m = K \<and> brk m0 \<le> brk m \<and> (\<forall>x<brk m0. bns m x = bns m0 x) \<and>
      rsas m sp = rsas m0 sp \<and> rsas m np \<noteq> None)"

section \<open>Notions for the decoder\<close>

text \<open>
  The passphrase source in the words of the spec: the direct passphrase when one is
  given; else the provider, through this file's callback with the session as its
  userdata; else nothing, which leaves the backend to its own prompt.
\<close>

definition chosen_arguments ::
  "ssh_session_struct \<Rightarrow> string option \<Rightarrow> pem_password_cb option \<times> pem_userdata" where
  "chosen_arguments session passphrase =
     (case passphrase of
        Some pw \<Rightarrow> (None, U_passphrase pw)
      | None \<Rightarrow>
          if has_provider session then (Some Pem_get_password, U_session session)
          else (None, U_NULL))"

text \<open>
  What the backend reads: the return of the family's PEM reader on the text with the
  given callback and userdata, as the value of a handle of that family that is PRIVATE
  and PUBLIC, carries the type name of the family and has the fields the reader has
  read; \<open>None\<close> when the reader returns NULL.
\<close>

definition backend_reading ::
  "backend \<Rightarrow> ssh_keytypes_e \<Rightarrow> string \<Rightarrow> pem_password_cb option \<times> pem_userdata \<Rightarrow>
   key_value option" where
  "backend_reading ext t b64_key a =
     (case a of
        (cb, u) \<Rightarrow>
          if t = SSH_KEYTYPE_DSS
          then map_option
                 (\<lambda>v. \<lparr>kv_type = t, kv_flags = SSH_KEY_FLAG_PRIVATE OR SSH_KEY_FLAG_PUBLIC,
                        kv_type_c = ssh_key_type_to_char ext t, kv_dsa = Some v, kv_rsa = None\<rparr>)
                 (PEM_read_bio_DSAPrivateKey ext b64_key cb u)
          else map_option
                 (\<lambda>v. \<lparr>kv_type = t, kv_flags = SSH_KEY_FLAG_PRIVATE OR SSH_KEY_FLAG_PUBLIC,
                        kv_type_c = ssh_key_type_to_char ext t, kv_dsa = None, kv_rsa = Some v\<rparr>)
                 (PEM_read_bio_RSAPrivateKey ext b64_key cb u))"

section \<open>Notions for the encoder\<close>

text \<open>
  The blob in the words of the spec: the type name as a length-prefixed string, then the
  public fields of the family as length-prefixed integers, for DSA in the order p, q, g,
  public value, for RSA in the order public exponent, modulus. \<open>public_values\<close> is
  \<open>None\<close> unless the family is supported and each of these fields has a value.
\<close>

definition public_values :: "mem \<Rightarrow> ssh_key_struct \<Rightarrow> nat list option" where
  "public_values m ks =
     (case key_type ks of
        SSH_KEYTYPE_DSS \<Rightarrow>
          (case dsa_view m (key_dsa ks) of
             None \<Rightarrow> None
           | Some v \<Rightarrow> those [v DSA_p, v DSA_q, v DSA_g, v DSA_pub_key])
      | SSH_KEYTYPE_RSA \<Rightarrow>
          (case rsa_view m (key_rsa ks) of None \<Rightarrow> None | Some v \<Rightarrow> those [v RSA_e, v RSA_n])
      | SSH_KEYTYPE_RSA1 \<Rightarrow>
          (case rsa_view m (key_rsa ks) of None \<Rightarrow> None | Some v \<Rightarrow> those [v RSA_e, v RSA_n])
      | SSH_KEYTYPE_ECDSA \<Rightarrow> None
      | SSH_KEYTYPE_UNKNOWN \<Rightarrow> None)"

definition public_blob :: "string \<Rightarrow> nat list \<Rightarrow> byte list" where
  "public_blob name vs =
     ssh_string_wire (bytes_of_string name) @
     concat (map (\<lambda>v. ssh_string_wire (bignum_bytes v)) vs)"

text \<open>
  Reading a blob in the wire format of the spec: a 32-bit big-endian length followed by
  that many bytes, once for the type name and once for each field, with nothing after
  the last field; each field is read as a big-endian integer. \<open>read_blob k\<close> reads a
  blob of \<open>k\<close> fields and is \<open>None\<close> on any other sequence of bytes.
\<close>

fun read_strings :: "nat \<Rightarrow> byte list \<Rightarrow> byte list list option" where
  "read_strings 0 bs = (if bs = [] then Some [] else None)"
| "read_strings (Suc k) bs =
     (if length bs < 4 then None
      else
        let n = bytes_to_nat (take 4 bs); rest = drop 4 bs in
        if length rest < n then None
        else map_option (Cons (take n rest)) (read_strings k (drop n rest)))"

definition read_blob :: "nat \<Rightarrow> byte list \<Rightarrow> (byte list \<times> nat list) option" where
  "read_blob k bs =
     (case read_strings (Suc k) bs of
        None \<Rightarrow> None
      | Some [] \<Rightarrow> None
      | Some (name # numbers) \<Rightarrow> Some (name, map bytes_to_nat numbers))"

section \<open>Frame properties of the primitives\<close>

lemma replicate_numeral: "replicate (numeral k) x = x # replicate (pred_numeral k) x"
  by (simp add: numeral_eq_Suc)

lemmas flag_defs = SSH_KEY_FLAG_PRIVATE_def SSH_KEY_FLAG_EMPTY_def SSH_KEY_FLAG_PUBLIC_def

lemmas heap_defs = ssh_key_new_def attempt_def DSA_new_def RSA_new_def get_dsa_field_def
  set_dsa_field_def get_rsa_field_def set_rsa_field_def BN_dup_def BN_new_val_def
  ssh_key_free_def DSA_free_def RSA_free_def BN_clear_free_def dsa_fields_def rsa_fields_def

lemmas dup_defs = pki_key_dup_def dup_switch_def dup_dss_body_def dup_rsa_body_def
  dup_DSA_new_def dup_RSA_new_def dup_dsa_field_def dup_rsa_field_def dup_rsa_field_opt_def
  if_private_def

lemmas build_defs = pki_pubkey_build_rsa_def pki_pubkey_build_dss_def build_dsa_field_def
  build_rsa_field_def make_string_bn_def bytes_to_nat_def SSH_OK_def SSH_ERROR_def

lemma attempt_frame:
  "attempt m = (ok, m1) \<Longrightarrow>
   keys m1 = keys m \<and> bns m1 = bns m \<and> dsas m1 = dsas m \<and> rsas m1 = rsas m \<and>
   brk m1 = brk m \<and> trace m1 = trace m"
  by (auto simp: attempt_def split: list.splits)

lemma bn_val_cong: "bns m' = bns m \<Longrightarrow> bn_val m' = bn_val m"
  by (rule ext) (simp add: bn_val_def split: option.splits)

lemma dsa_view_cong: "bns m' = bns m \<Longrightarrow> dsas m' = dsas m \<Longrightarrow> dsa_view m' = dsa_view m"
  by (rule ext) (simp add: dsa_view_def bn_val_cong [of m' m] split: option.splits)

lemma rsa_view_cong: "bns m' = bns m \<Longrightarrow> rsas m' = rsas m \<Longrightarrow> rsa_view m' = rsa_view m"
  by (rule ext) (simp add: rsa_view_def bn_val_cong [of m' m] split: option.splits)

lemma view_attempt:
  "attempt m = (ok, m1) \<Longrightarrow> dsa_view m1 = dsa_view m \<and> rsa_view m1 = rsa_view m"
  using attempt_frame [of m ok m1] dsa_view_cong [of m1 m] rsa_view_cong [of m1 m] by simp

lemma BN_new_val_frame:
  "BN_new_val m v = (a, m1) \<Longrightarrow>
   keys m1 = keys m \<and> dsas m1 = dsas m \<and> rsas m1 = rsas m \<and> trace m1 = trace m"
  by (auto simp: BN_new_val_def attempt_def split: list.splits bool.splits prod.splits)

lemma BN_clear_free_frame:
  "BN_clear_free m a = Some m1 \<Longrightarrow>
   keys m1 = keys m \<and> dsas m1 = dsas m \<and> rsas m1 = rsas m \<and> trace m1 = trace m \<and>
   brk m1 = brk m \<and> plan m1 = plan m"
  by (auto simp: BN_clear_free_def split: option.splits)

lemma BN_clear_free_all_frame:
  "BN_clear_free_all m as = Some m1 \<Longrightarrow>
   keys m1 = keys m \<and> dsas m1 = dsas m \<and> rsas m1 = rsas m \<and> trace m1 = trace m \<and>
   brk m1 = brk m \<and> plan m1 = plan m"
proof (induction as arbitrary: m)
  case Nil
  then show ?case by simp
next
  case (Cons a as)
  then obtain m2 where 1: "BN_clear_free m a = Some m2" and 2: "BN_clear_free_all m2 as = Some m1"
    by (auto split: option.splits)
  from Cons.IH [OF 2] BN_clear_free_frame [OF 1] show ?case by simp
qed

lemma DSA_free_frame:
  "DSA_free m d = Some m1 \<Longrightarrow>
   keys m1 = keys m \<and> rsas m1 = rsas m \<and> trace m1 = trace m \<and> brk m1 = brk m \<and>
   plan m1 = plan m"
  by (auto simp: DSA_free_def split: option.splits dest: BN_clear_free_all_frame)

lemma RSA_free_frame:
  "RSA_free m d = Some m1 \<Longrightarrow>
   keys m1 = keys m \<and> dsas m1 = dsas m \<and> trace m1 = trace m \<and> brk m1 = brk m \<and>
   plan m1 = plan m"
  by (auto simp: RSA_free_def split: option.splits dest: BN_clear_free_all_frame)

lemma set_dsa_field_frame:
  "set_dsa_field m k f a = Some m1 \<Longrightarrow>
   keys m1 = keys m \<and> bns m1 = bns m \<and> rsas m1 = rsas m \<and> trace m1 = trace m \<and>
   brk m1 = brk m \<and> plan m1 = plan m"
  by (auto simp: set_dsa_field_def split: option.splits)

lemma set_rsa_field_frame:
  "set_rsa_field m k f a = Some m1 \<Longrightarrow>
   keys m1 = keys m \<and> bns m1 = bns m \<and> dsas m1 = dsas m \<and> trace m1 = trace m \<and>
   brk m1 = brk m \<and> plan m1 = plan m"
  by (auto simp: set_rsa_field_def split: option.splits)

lemma build_dsa_field_frame:
  "build_dsa_field f s key m = Some m1 \<Longrightarrow> keys m1 = keys m \<and> trace m1 = trace m"
  by (auto simp: build_dsa_field_def make_string_bn_def split: prod.splits
      dest!: BN_new_val_frame set_dsa_field_frame)

lemma build_rsa_field_frame:
  "build_rsa_field f s key m = Some m1 \<Longrightarrow> keys m1 = keys m \<and> trace m1 = trace m"
  by (auto simp: build_rsa_field_def make_string_bn_def split: prod.splits
      dest!: BN_new_val_frame set_rsa_field_frame)

lemma DSA_new_frame: "DSA_new m = (d, m1) \<Longrightarrow> keys m1 = keys m \<and> trace m1 = trace m"
  by (auto simp: DSA_new_def attempt_def split: list.splits bool.splits prod.splits)

lemma RSA_new_frame: "RSA_new m = (d, m1) \<Longrightarrow> keys m1 = keys m \<and> trace m1 = trace m"
  by (auto simp: RSA_new_def attempt_def split: list.splits bool.splits prod.splits)

section \<open>The public-key builders\<close>

lemma build_dss_keys:
  assumes "pki_pubkey_build_dss m key p q g pubkey = Some (rc, m')" and "keys m key = Some ks"
  shows "\<exists>d. keys m' = (keys m)(key \<mapsto> ks\<lparr>key_dsa := d\<rparr>)"
proof -
  obtain d m0 where n: "DSA_new m = (d, m0)" by (cases "DSA_new m")
  from DSA_new_frame [OF n] have k0: "keys m0 = keys m" by simp
  let ?m1 = "m0\<lparr>keys := (keys m0)(key \<mapsto> ks\<lparr>key_dsa := d\<rparr>)\<rparr>"
  show ?thesis
  proof (cases d)
    case None
    with assms n k0 show ?thesis
      by (auto simp: pki_pubkey_build_dss_def)
  next
    case (Some x)
    with assms n k0 obtain m2 m3 m4 m5 where
      s: "build_dsa_field DSA_p p key ?m1 = Some m2" "build_dsa_field DSA_q q key m2 = Some m3"
         "build_dsa_field DSA_g g key m3 = Some m4"
         "build_dsa_field DSA_pub_key pubkey key m4 = Some m5"
      and r: "m' = m5 \<or> (\<exists>k5. keys m5 key = Some k5 \<and> DSA_free m5 (key_dsa k5) = Some m')"
      by (auto simp: pki_pubkey_build_dss_def Let_def split: Option.bind_splits if_splits)
    from s have "keys m5 = keys ?m1"
      by (auto dest!: build_dsa_field_frame)
    moreover from r have "keys m' = keys m5"
      by (auto dest!: DSA_free_frame)
    ultimately show ?thesis using k0 by auto
  qed
qed

lemma build_rsa_keys:
  assumes "pki_pubkey_build_rsa m key e n = Some (rc, m')" and "keys m key = Some ks"
  shows "\<exists>r. keys m' = (keys m)(key \<mapsto> ks\<lparr>key_rsa := r\<rparr>)"
proof -
  obtain d m0 where n: "RSA_new m = (d, m0)" by (cases "RSA_new m")
  from RSA_new_frame [OF n] have k0: "keys m0 = keys m" by simp
  let ?m1 = "m0\<lparr>keys := (keys m0)(key \<mapsto> ks\<lparr>key_rsa := d\<rparr>)\<rparr>"
  show ?thesis
  proof (cases d)
    case None
    with assms n k0 show ?thesis
      by (auto simp: pki_pubkey_build_rsa_def)
  next
    case (Some x)
    with assms n k0 obtain m2 m3 where
      s: "build_rsa_field RSA_e e key ?m1 = Some m2" "build_rsa_field RSA_n n key m2 = Some m3"
      and r: "m' = m3 \<or> (\<exists>k3. keys m3 key = Some k3 \<and> RSA_free m3 (key_rsa k3) = Some m')"
      by (auto simp: pki_pubkey_build_rsa_def Let_def split: Option.bind_splits if_splits)
    from s have "keys m3 = keys ?m1"
      by (auto dest!: build_rsa_field_frame)
    moreover from r have "keys m' = keys m3"
      by (auto dest!: RSA_free_frame)
    ultimately show ?thesis using k0 by auto
  qed
qed

text \<open>
  C6. The claim is that a key returned by a successful build has flags PUBLIC only. The
  builders never write the flags: whatever their return code, the handle keeps the
  type, the type name and the flags it had before the call, and only its payload
  pointer changes. So a handle whose flags were PUBLIC before the call has flags PUBLIC
  after it, and no other handle has.
\<close>

theorem pki_pubkey_build_keeps_flags:
  assumes "keys m key = Some ks"
  shows "(\<forall>rc m'. pki_pubkey_build_dss m key p q g pubkey = Some (rc, m') \<longrightarrow>
            (\<exists>d. keys m' key = Some (ks\<lparr>key_dsa := d\<rparr>)))
       \<and> (\<forall>rc m'. pki_pubkey_build_rsa m key e n = Some (rc, m') \<longrightarrow>
            (\<exists>r. keys m' key = Some (ks\<lparr>key_rsa := r\<rparr>)))"
proof (intro conjI allI impI)
  fix rc m'
  assume "pki_pubkey_build_dss m key p q g pubkey = Some (rc, m')"
  from build_dss_keys [OF this assms] show "\<exists>d. keys m' key = Some (ks\<lparr>key_dsa := d\<rparr>)"
    by auto
next
  fix rc m'
  assume "pki_pubkey_build_rsa m key e n = Some (rc, m')"
  from build_rsa_keys [OF this assms] show "\<exists>r. keys m' key = Some (ks\<lparr>key_rsa := r\<rparr>)"
    by auto
qed

text \<open>
  The builders on the empty public RSA handle at 7: both return \<^verbatim>\<open>SSH_OK\<close> and the flags
  stay PUBLIC.
\<close>

theorem pki_pubkey_build_keeps_flags_witness:
  "keys ex_mem 7 \<noteq> None
   \<and> (case pki_pubkey_build_dss ex_mem 7 [23] [11] [4] [8] of
        Some (rc, m') \<Rightarrow>
          rc = SSH_OK \<and> map_option key_flags (keys m' 7) = Some SSH_KEY_FLAG_PUBLIC
      | None \<Rightarrow> False)
   \<and> (case pki_pubkey_build_rsa ex_mem 7 [1, 0, 1] [12, 161] of
        Some (rc, m') \<Rightarrow>
          rc = SSH_OK \<and> map_option key_flags (keys m' 7) = Some SSH_KEY_FLAG_PUBLIC
      | None \<Rightarrow> False)"
proof -
  have k: "keys ex_mem 7 =
      Some \<lparr>key_type = SSH_KEYTYPE_RSA, key_flags = SSH_KEY_FLAG_PUBLIC,
            key_type_c = Some ''ssh-rsa'', key_dsa = None, key_rsa = None\<rparr>"
    by (simp add: ex_mem_def)
  have 1: "map_option fst (pki_pubkey_build_dss ex_mem 7 [23] [11] [4] [8]) = Some SSH_OK"
    by (simp add: ex_mem_def build_defs heap_defs)
  have 2: "map_option fst (pki_pubkey_build_rsa ex_mem 7 [1, 0, 1] [12, 161]) = Some SSH_OK"
    by (simp add: ex_mem_def build_defs heap_defs)
  from 1 obtain m1 where 3: "pki_pubkey_build_dss ex_mem 7 [23] [11] [4] [8] = Some (SSH_OK, m1)"
    by auto
  from 2 obtain m2 where 4: "pki_pubkey_build_rsa ex_mem 7 [1, 0, 1] [12, 161] = Some (SSH_OK, m2)"
    by auto
  from pki_pubkey_build_keeps_flags [OF k, of "[23]" "[11]" "[4]" "[8]" "[1, 0, 1]" "[12, 161]"]
  show ?thesis using k 3 4 by auto
qed

text \<open>
  Against the claim as stated: the handle at 2 carries PRIVATE and PUBLIC; the build
  succeeds on it and it still carries both.
\<close>

theorem pki_pubkey_build_flags_counterexample:
  "map_option key_flags (keys ex_mem 2) = Some (SSH_KEY_FLAG_PRIVATE OR SSH_KEY_FLAG_PUBLIC)
   \<and> (case pki_pubkey_build_rsa ex_mem 2 [1, 0, 1] [12, 161] of
        Some (rc, m') \<Rightarrow>
          rc = SSH_OK \<and>
          map_option key_flags (keys m' 2) = Some (SSH_KEY_FLAG_PRIVATE OR SSH_KEY_FLAG_PUBLIC) \<and>
          map_option key_flags (keys m' 2) \<noteq> Some SSH_KEY_FLAG_PUBLIC
      | None \<Rightarrow> False)"
  by (simp add: ex_mem_def build_defs heap_defs flag_defs)

section \<open>The password callback\<close>

text \<open>
  C9. The claim is that the callback hands the provider's secret to the backend on
  success, nothing on a rejection, and that a zero-length result is distinct from an
  error. With a provider installed, the callback returns the length of the secret the
  provider left in the buffer when the provider returns 0, and returns 0 for every other
  provider result; an accepted empty secret has length 0, so that the callback returns
  the same 0 for it as for a rejection.
\<close>

theorem pem_get_password_result:
  assumes "len \<le> length b"
    and "callbacks ses = Some cbs" and "auth_function cbs = Some af"
    and "af ''Passphrase for private key:'' (replicate len 0 @ drop len b) len 0 0 (userdata cbs)
           = (rc, b1)"
  shows "pem_get_password (Some b) len rwflag (Some ses) =
           (if rc = 0 then map_option (\<lambda>n. (int n, Some b1)) (strlen b1)
            else Some (0, Some b1))"
  using assms by (auto simp: pem_get_password_def split: option.splits)

theorem pem_get_password_result_witness:
  "pem_get_password (Some [1, 2, 3, 4]) 4 0 (Some (ex_session (Some ex_secret))) =
     Some (2, Some [115, 51, 0, 0])"
proof -
  have 1: "(4::nat) \<le> length [1, 2, 3, 4 :: byte]" by simp
  have 2: "callbacks (ex_session (Some ex_secret)) =
             Some \<lparr>auth_function = Some ex_secret, userdata = 0\<rparr>"
    by (simp add: ex_session_def)
  have 3: "auth_function \<lparr>auth_function = Some ex_secret, userdata = 0\<rparr> = Some ex_secret"
    by simp
  have 4: "ex_secret ''Passphrase for private key:'' (replicate 4 0 @ drop 4 [1, 2, 3, 4]) 4 0 0
             (userdata \<lparr>auth_function = Some ex_secret, userdata = 0\<rparr>) = (0, [115, 51, 0, 0])"
    by (simp add: ex_secret_def replicate_numeral)
  from pem_get_password_result [OF 1 2 3 4, of 0]
  show ?thesis by (simp add: strlen_def)
qed

text \<open>
  Against the claim as stated: the rejecting provider and the provider that accepts
  with the empty secret make the callback return the same value and buffer.
\<close>

theorem pem_get_password_counterexample:
  "pem_get_password (Some [1, 2, 3, 4]) 4 0 (Some (ex_session (Some ex_reject))) =
     Some (0, Some [0, 0, 0, 0])
   \<and> pem_get_password (Some [1, 2, 3, 4]) 4 0 (Some (ex_session (Some ex_empty))) =
     Some (0, Some [0, 0, 0, 0])"
  by (simp add: pem_get_password_def ex_session_def ex_reject_def ex_empty_def strlen_def
        replicate_numeral)

section \<open>The private-key decoder\<close>

text \<open>
  C4. A text whose header is classified as unknown or as an unsupported family makes the
  decoder return NULL and leave the memory as it was, its record of backend calls
  included: no PEM reader is called, and neither the passphrase nor the provider is
  used. The session gets the error message of an unrecognized key (none when the
  library initialization fails first).
\<close>

theorem pki_private_key_from_base64_unrecognized:
  assumes "unsupported (pki_privatekey_type_from_string ext b64_key)"
  shows "pki_private_key_from_base64 ext m session b64_key passphrase =
           Some (None,
                 (if ssh_init ext < 0 then session
                  else if pki_privatekey_type_from_string ext b64_key = SSH_KEYTYPE_UNKNOWN
                  then ssh_set_error session Unknown_or_invalid_private_key
                  else ssh_set_error session
                         (Unkown_or_invalid_private_key_type SSH_KEYTYPE_ECDSA)),
                 m)"
  using assms
  by (auto simp: pki_private_key_from_base64_def unsupported_def Let_def)

theorem pki_private_key_from_base64_unrecognized_witness:
  "unsupported (pki_privatekey_type_from_string ex_backend ''X'')
   \<and> pki_private_key_from_base64 ex_backend ex_mem (ex_session (Some ex_secret)) ''X''
       (Some ''pw'') =
     Some (None, ssh_set_error (ex_session (Some ex_secret)) Unknown_or_invalid_private_key,
           ex_mem)"
proof -
  have 1: "unsupported (pki_privatekey_type_from_string ex_backend ''X'')"
    by (simp add: unsupported_def ex_backend_def)
  from pki_private_key_from_base64_unrecognized
         [OF 1, of ex_mem "ex_session (Some ex_secret)" "Some ''pw''"]
  show ?thesis using 1 by (simp add: ex_backend_def)
qed

section \<open>The signer\<close>

text \<open>
  C2. The claim is that signing with a key whose flags are PUBLIC only fails without
  calling the signature primitive. The function never reads the flags. For a handle of
  a supported family, once its own allocation has succeeded, it calls the primitive of
  the family on the handle's payload and returns what the primitive returns (NULL
  exactly when the primitive returns NULL); the result is the same whatever value the
  flags have.
\<close>

theorem pki_do_sign_ignores_flags:
  assumes k: "keys m key = Some ks" and t: "supported (key_type ks)"
    and w: "digest_window hash = Some w" and a: "attempt m = (True, m1)"
  shows "pki_do_sign ext m key hash =
           Some (primitive_signature ext m ks w, log_call (sign_call (key_type ks)) m1)
       \<and> pki_do_sign ext (m\<lparr>keys := (keys m)(key \<mapsto> ks\<lparr>key_flags := fl\<rparr>)\<rparr>) key hash =
           Some (primitive_signature ext m ks w,
                 log_call (sign_call (key_type ks))
                   (m1\<lparr>keys := (keys m)(key \<mapsto> ks\<lparr>key_flags := fl\<rparr>)\<rparr>))"
proof
  from a have k1: "keys m1 = keys m" and v: "dsa_view m1 = dsa_view m" "rsa_view m1 = rsa_view m"
    using attempt_frame view_attempt by blast+
  show "pki_do_sign ext m key hash =
           Some (primitive_signature ext m ks w, log_call (sign_call (key_type ks)) m1)"
    using k t w a k1 v
    by (auto simp: pki_do_sign_def supported_def primitive_signature_def sign_call_def
          split: option.splits)
  have a': "attempt (m\<lparr>keys := (keys m)(key \<mapsto> ks\<lparr>key_flags := fl\<rparr>)\<rparr>) =
        (True, m1\<lparr>keys := (keys m)(key \<mapsto> ks\<lparr>key_flags := fl\<rparr>)\<rparr>)"
    using a by (auto simp: attempt_def split: list.splits)
  have v': "dsa_view (m1\<lparr>keys := X\<rparr>) = dsa_view m" "rsa_view (m1\<lparr>keys := X\<rparr>) = rsa_view m" for X
    using v dsa_view_cong [of "m1\<lparr>keys := X\<rparr>" m1] rsa_view_cong [of "m1\<lparr>keys := X\<rparr>" m1]
    by simp_all
  show "pki_do_sign ext (m\<lparr>keys := (keys m)(key \<mapsto> ks\<lparr>key_flags := fl\<rparr>)\<rparr>) key hash =
           Some (primitive_signature ext m ks w,
                 log_call (sign_call (key_type ks))
                   (m1\<lparr>keys := (keys m)(key \<mapsto> ks\<lparr>key_flags := fl\<rparr>)\<rparr>))"
    using t w a' v'
    by (auto simp: pki_do_sign_def supported_def primitive_signature_def sign_call_def
          split: option.splits)
qed

text \<open>The private RSA key at 2 signs, and the primitive is the one call made.\<close>

theorem pki_do_sign_ignores_flags_witness:
  "supported SSH_KEYTYPE_RSA
   \<and> digest_window (replicate 21 0) = Some (replicate 20 0)
   \<and> attempt ex_mem = (True, ex_mem)
   \<and> pki_do_sign ex_backend ex_mem 2 (replicate 21 0) =
       Some (Some \<lparr>sig_type = SSH_KEYTYPE_RSA, dsa_sign = None, rsa_sign = Some [1, 2, 3]\<rparr>,
             ex_mem\<lparr>trace := [Call_RSA_do_sign]\<rparr>)"
proof -
  let ?ks = "\<lparr>key_type = SSH_KEYTYPE_RSA,
              key_flags = SSH_KEY_FLAG_PRIVATE OR SSH_KEY_FLAG_PUBLIC,
              key_type_c = Some ''ssh-rsa'', key_dsa = None, key_rsa = Some 3\<rparr>"
  have 1: "keys ex_mem 2 = Some ?ks" by (simp add: ex_mem_def)
  have 2: "supported (key_type ?ks)" by (simp add: supported_def)
  have 3: "digest_window (replicate 21 0) = Some (replicate 20 0)"
    by (simp add: digest_window_def SHA_DIGEST_LEN_def replicate_numeral)
  have 4: "attempt ex_mem = (True, ex_mem)" by (simp add: attempt_def ex_mem_def)
  from pki_do_sign_ignores_flags [OF 1 2 3 4, of ex_backend 0]
  have "pki_do_sign ex_backend ex_mem 2 (replicate 21 0) =
          Some (primitive_signature ex_backend ex_mem ?ks (replicate 20 0),
                log_call (sign_call SSH_KEYTYPE_RSA) ex_mem)"
    by simp
  then show ?thesis using 2 3 4
    by (simp add: primitive_signature_def ex_backend_def log_call_def sign_call_def ex_mem_def)
qed

text \<open>
  Against the claim as stated: the DSA handle at 4 has flags PUBLIC only and no private
  value; signing with it calls the primitive and returns the signature the primitive
  gives.
\<close>

theorem pki_do_sign_public_counterexample:
  "map_option key_flags (keys ex_mem 4) = Some SSH_KEY_FLAG_PUBLIC
   \<and> get_dsa_field ex_mem 4 DSA_priv_key = Some None
   \<and> pki_do_sign ex_backend ex_mem 4 (replicate 21 0) =
       Some (Some \<lparr>sig_type = SSH_KEYTYPE_DSS, dsa_sign = Some (1, 2), rsa_sign = None\<rparr>,
             ex_mem\<lparr>trace := [Call_DSA_do_sign]\<rparr>)"
  by (simp add: ex_mem_def pki_do_sign_def attempt_def digest_window_def SHA_DIGEST_LEN_def
        ex_backend_def log_call_def get_dsa_field_def ex_dsa_public_def)

section \<open>Handles of an unsupported family\<close>

lemma pki_key_dup_unsupported:
  assumes "keys m key = Some ks" and "unsupported (key_type ks)"
  shows "\<exists>m'. pki_key_dup m key demote = Some (None, m')"
  using assms
  by (auto simp: pki_key_dup_def ssh_key_new_def attempt_def dup_switch_def unsupported_def
        ssh_key_free_def DSA_free_def RSA_free_def
      split: list.splits bool.splits)

lemma pki_publickey_to_string_unsupported:
  assumes "keys m key = Some ks" and "unsupported (key_type ks)" and "key_type_c ks \<noteq> None"
  shows "\<exists>m'. pki_publickey_to_string m key = Some (None, m')"
  using assms
  by (auto simp: pki_publickey_to_string_def ssh_buffer_new_def new_bytes_def attempt_def
        ssh_string_from_char_def buffer_add_ssh_string_def to_string_fail_def
        ssh_string_release_def no_strings_def unsupported_def
      split: list.splits bool.splits)

lemma pki_do_sign_unsupported:
  assumes "keys m key = Some ks" and "unsupported (key_type ks)"
  shows "\<exists>m'. pki_do_sign ext m key hash = Some (None, m') \<and> trace m' = trace m"
  using assms
  by (auto simp: pki_do_sign_def attempt_def unsupported_def split: list.splits bool.splits)

lemma pki_private_key_from_base64_unsupported:
  assumes "unsupported (pki_privatekey_type_from_string ext b64_key)"
  shows "\<exists>session'. pki_private_key_from_base64 ext m session b64_key passphrase =
           Some (None, session', m)"
  using assms
  by (auto simp: pki_private_key_from_base64_def unsupported_def Let_def)

text \<open>
  C7. The claim is that each of the five operations fails on a handle of an unsupported
  family. Four of them do, by returning NULL without undefined behaviour: the duplicate,
  the encoder (for a handle whose type name is not NULL), the signer, which does not call
  a primitive, and the decoder on a text classified as unsupported, which leaves the
  memory untouched. The C functions return the same NULL for every kind of failure. The
  two builders do not read the family of the handle they fill, so the claim does not
  hold for them and they are left out here.
\<close>

theorem unsupported_family_fails:
  assumes "keys m key = Some ks" and "unsupported (key_type ks)"
    and "unsupported (pki_privatekey_type_from_string ext b64_key)"
  shows "(\<exists>m'. pki_key_dup m key demote = Some (None, m'))
       \<and> (key_type_c ks \<noteq> None \<longrightarrow> (\<exists>m'. pki_publickey_to_string m key = Some (None, m')))
       \<and> (\<exists>m'. pki_do_sign ext m key hash = Some (None, m') \<and> trace m' = trace m)
       \<and> (\<exists>session'. pki_private_key_from_base64 ext m session b64_key passphrase =
             Some (None, session', m))"
  using pki_key_dup_unsupported [OF assms(1,2)]
    pki_publickey_to_string_unsupported [OF assms(1,2)]
    pki_do_sign_unsupported [OF assms(1,2)]
    pki_private_key_from_base64_unsupported [OF assms(3)]
  by blast

text \<open>The handle of type ECDSA at 6, and a text classified as ECDSA.\<close>

theorem unsupported_family_fails_witness:
  "map_option key_type (keys ex_mem 6) = Some SSH_KEYTYPE_ECDSA
   \<and> map_option key_type_c (keys ex_mem 6) = Some (Some ''ssh-ecdsa'')
   \<and> unsupported SSH_KEYTYPE_ECDSA
   \<and> unsupported (pki_privatekey_type_from_string ex_backend ''E'')
   \<and> map_option fst (pki_key_dup ex_mem 6 False) = Some None
   \<and> map_option fst (pki_publickey_to_string ex_mem 6) = Some None
   \<and> map_option fst (pki_do_sign ex_backend ex_mem 6 (replicate 21 0)) = Some None
   \<and> map_option fst (pki_private_key_from_base64 ex_backend ex_mem
         (ex_session None) ''E'' None) = Some None"
proof -
  let ?ks = "\<lparr>key_type = SSH_KEYTYPE_ECDSA, key_flags = SSH_KEY_FLAG_PUBLIC,
              key_type_c = Some ''ssh-ecdsa'', key_dsa = None, key_rsa = None\<rparr>"
  have 1: "keys ex_mem 6 = Some ?ks" by (simp add: ex_mem_def)
  have 2: "unsupported (key_type ?ks)" by (simp add: unsupported_def)
  have 3: "unsupported (pki_privatekey_type_from_string ex_backend ''E'')"
    by (simp add: unsupported_def ex_backend_def)
  from unsupported_family_fails
         [OF 1 2 3, of False "replicate 21 0" "ex_session None" None]
  show ?thesis using 1 2 3 by auto
qed

text \<open>
  Against the claim as stated: both builders return \<^verbatim>\<open>SSH_OK\<close> on the handle of type
  ECDSA at 6.
\<close>

theorem unsupported_family_build_counterexample:
  "map_option key_type (keys ex_mem 6) = Some SSH_KEYTYPE_ECDSA
   \<and> map_option fst (pki_pubkey_build_dss ex_mem 6 [23] [11] [4] [8]) = Some SSH_OK
   \<and> map_option fst (pki_pubkey_build_rsa ex_mem 6 [1, 0, 1] [12, 161]) = Some SSH_OK"
  by (simp add: ex_mem_def build_defs heap_defs)

section \<open>The passphrase source of the decoder\<close>

lemma install_bns_frame:
  "install_bns m fs vals st = (st', m') \<Longrightarrow>
   trace m' = trace m \<and> keys m' = keys m \<and> plan m' = plan m \<and> dsas m' = dsas m \<and> rsas m' = rsas m"
proof (induction fs arbitrary: m st)
  case Nil
  then show ?case by simp
next
  case (Cons f fs)
  show ?case
  proof (cases "vals f")
    case None
    with Cons show ?thesis by simp
  next
    case (Some v)
    with Cons.prems have "install_bns (m\<lparr>bns := (bns m)(brk m \<mapsto> v), brk := Suc (brk m)\<rparr>) fs vals
            (st(f := Some (brk m))) = (st', m')"
      by simp
    from Cons.IH [OF this] show ?thesis by simp
  qed
qed

lemma install_dsa_frame:
  "install_dsa m vals = (d, m') \<Longrightarrow> trace m' = trace m \<and> keys m' = keys m \<and> plan m' = plan m"
  by (auto simp: install_dsa_def split: prod.splits dest!: install_bns_frame)

lemma install_rsa_frame:
  "install_rsa m vals = (r, m') \<Longrightarrow> trace m' = trace m \<and> keys m' = keys m \<and> plan m' = plan m"
  by (auto simp: install_rsa_def split: prod.splits dest!: install_bns_frame)

lemma ssh_key_new_frame:
  "ssh_key_new m = (k, m') \<Longrightarrow> trace m' = trace m"
  by (auto simp: ssh_key_new_def attempt_def split: list.splits bool.splits prod.splits)

lemma decoded_key_trace:
  assumes "decoded_key ext t dsa rsa m = Some (k, m')"
  shows "trace m' = trace m"
proof -
  obtain k0 m1 where n: "ssh_key_new m = (k0, m1)" by (cases "ssh_key_new m")
  from ssh_key_new_frame [OF n] have t1: "trace m1 = trace m" .
  show ?thesis
  proof (cases k0)
    case None
    with assms n obtain m3 where "DSA_free m1 dsa = Some m3" and "RSA_free m3 rsa = Some m'"
      by (auto simp: decoded_key_def ssh_key_free_def split: Option.bind_splits)
    then show ?thesis using t1 by (auto dest!: DSA_free_frame RSA_free_frame)
  next
    case (Some key)
    with assms n t1 show ?thesis
      by (auto simp: decoded_key_def split: option.splits)
  qed
qed

lemma decoded_key_succeeds:
  assumes "fst (attempt m)"
  shows "\<exists>key m'. decoded_key ext t dsa rsa m = Some (Some key, m')"
  using assms
  by (auto simp: decoded_key_def ssh_key_new_def attempt_def split: list.splits)

lemma pem_arguments_chosen: "pem_arguments session passphrase = chosen_arguments session passphrase"
  by (auto simp: pem_arguments_def chosen_arguments_def has_provider_def split: option.splits)

lemma read_dsa_key_trace:
  assumes "read_dsa_key ext m session b64_key passphrase t = Some (key, session', m')"
  shows "trace m' = trace m @ [case_prod Call_PEM_read_bio_DSAPrivateKey (pem_arguments session passphrase)]"
proof -
  obtain cb u where a: "pem_arguments session passphrase = (cb, u)"
    by (cases "pem_arguments session passphrase")
  show ?thesis
  proof (cases "PEM_read_bio_DSAPrivateKey ext b64_key cb u")
    case None
    with assms a show ?thesis by (auto simp: read_dsa_key_def log_call_def)
  next
    case (Some vals)
    obtain d m1 where i: "install_dsa (log_call (Call_PEM_read_bio_DSAPrivateKey cb u) m) vals = (d, m1)"
      by (cases "install_dsa (log_call (Call_PEM_read_bio_DSAPrivateKey cb u) m) vals")
    with assms a Some have "decoded_key ext t (Some d) None m1 = Some (key, m')"
      by (auto simp: read_dsa_key_def split: option.splits)
    from decoded_key_trace [OF this] install_dsa_frame [OF i] a show ?thesis
      by (simp add: log_call_def)
  qed
qed

lemma read_rsa_key_trace:
  assumes "read_rsa_key ext m session b64_key passphrase t = Some (key, session', m')"
  shows "trace m' = trace m @ [case_prod Call_PEM_read_bio_RSAPrivateKey (pem_arguments session passphrase)]"
proof -
  obtain cb u where a: "pem_arguments session passphrase = (cb, u)"
    by (cases "pem_arguments session passphrase")
  show ?thesis
  proof (cases "PEM_read_bio_RSAPrivateKey ext b64_key cb u")
    case None
    with assms a show ?thesis by (auto simp: read_rsa_key_def log_call_def)
  next
    case (Some vals)
    obtain d m1 where i: "install_rsa (log_call (Call_PEM_read_bio_RSAPrivateKey cb u) m) vals = (d, m1)"
      by (cases "install_rsa (log_call (Call_PEM_read_bio_RSAPrivateKey cb u) m) vals")
    with assms a Some have "decoded_key ext t None (Some d) m1 = Some (key, m')"
      by (auto simp: read_rsa_key_def split: option.splits)
    from decoded_key_trace [OF this] install_rsa_frame [OF i] a show ?thesis
      by (simp add: log_call_def)
  qed
qed

lemma decode_trace:
  assumes "0 \<le> ssh_init ext" and "supported (pki_privatekey_type_from_string ext b64_key)"
    and "pki_private_key_from_base64 ext m session b64_key passphrase = Some (key, session', m')"
  shows "trace m' = trace m @
           [case_prod (pem_call (pki_privatekey_type_from_string ext b64_key))
              (chosen_arguments session passphrase)]"
  using assms
  by (auto simp: pki_private_key_from_base64_def supported_def Let_def pem_call_def
        pem_arguments_chosen [symmetric]
      dest!: read_dsa_key_trace read_rsa_key_trace split: prod.splits)

lemma read_dsa_key_provider_unused:
  "read_dsa_key ext m (session\<lparr>callbacks := c\<rparr>) b64_key (Some pw) t =
     map_option (\<lambda>(k, s, m'). (k, s\<lparr>callbacks := c\<rparr>, m'))
       (read_dsa_key ext m session b64_key (Some pw) t)"
  by (auto simp: read_dsa_key_def pem_arguments_def ssh_set_error_def split: option.splits prod.splits)

lemma read_rsa_key_provider_unused:
  "read_rsa_key ext m (session\<lparr>callbacks := c\<rparr>) b64_key (Some pw) t =
     map_option (\<lambda>(k, s, m'). (k, s\<lparr>callbacks := c\<rparr>, m'))
       (read_rsa_key ext m session b64_key (Some pw) t)"
  by (auto simp: read_rsa_key_def pem_arguments_def ssh_set_error_def split: option.splits prod.splits)

lemma decode_provider_unused:
  "pki_private_key_from_base64 ext m (session\<lparr>callbacks := c\<rparr>) b64_key (Some pw) =
     map_option (\<lambda>(k, s, m'). (k, s\<lparr>callbacks := c\<rparr>, m'))
       (pki_private_key_from_base64 ext m session b64_key (Some pw))"
  by (simp add: pki_private_key_from_base64_def Let_def read_dsa_key_provider_unused
        read_rsa_key_provider_unused ssh_set_error_def split: ssh_keytypes_e.splits)

lemma decode_succeeds:
  assumes "0 \<le> ssh_init ext" and "supported (pki_privatekey_type_from_string ext b64_key)"
    and "fst (attempt m)"
  shows "\<exists>key session' m'. pki_private_key_from_base64 ext m session b64_key passphrase = Some (key, session', m')"
proof -
  have d: "\<exists>key m'. decoded_key ext t dsa rsa m1 = Some (Some key, m')"
    if "plan m1 = plan m" for t dsa rsa m1
    using that assms(3) decoded_key_succeeds [of m1 ext t dsa rsa]
    by (auto simp: attempt_def split: list.splits)
  have 1: "\<exists>r. read_dsa_key ext m session b64_key passphrase t = Some r" for t
  proof -
    obtain cb u where a: "pem_arguments session passphrase = (cb, u)"
      by (cases "pem_arguments session passphrase")
    show ?thesis
    proof (cases "PEM_read_bio_DSAPrivateKey ext b64_key cb u")
      case None
      with a show ?thesis by (simp add: read_dsa_key_def)
    next
      case (Some vals)
      obtain x m1 where i: "install_dsa (log_call (Call_PEM_read_bio_DSAPrivateKey cb u) m) vals = (x, m1)"
        by (cases "install_dsa (log_call (Call_PEM_read_bio_DSAPrivateKey cb u) m) vals")
      from install_dsa_frame [OF i] have "plan m1 = plan m" by (simp add: log_call_def)
      from d [OF this, of t "Some x" None] a Some i show ?thesis
        by (auto simp: read_dsa_key_def)
    qed
  qed
  have 2: "\<exists>r. read_rsa_key ext m session b64_key passphrase t = Some r" for t
  proof -
    obtain cb u where a: "pem_arguments session passphrase = (cb, u)"
      by (cases "pem_arguments session passphrase")
    show ?thesis
    proof (cases "PEM_read_bio_RSAPrivateKey ext b64_key cb u")
      case None
      with a show ?thesis by (simp add: read_rsa_key_def)
    next
      case (Some vals)
      obtain x m1 where i: "install_rsa (log_call (Call_PEM_read_bio_RSAPrivateKey cb u) m) vals = (x, m1)"
        by (cases "install_rsa (log_call (Call_PEM_read_bio_RSAPrivateKey cb u) m) vals")
      from install_rsa_frame [OF i] have "plan m1 = plan m" by (simp add: log_call_def)
      from d [OF this, of t None "Some x"] a Some i show ?thesis
        by (auto simp: read_rsa_key_def)
    qed
  qed
  from assms(1,2) 1 2 show ?thesis
    by (auto simp: pki_private_key_from_base64_def supported_def Let_def)
qed

lemma install_bns_vals:
  assumes "install_bns m fs vals st = (st', m')" and "\<forall>f. ptr_below (brk m) (st f)"
  shows "(\<forall>f. ptr_below (brk m') (st' f)) \<and>
         (\<forall>f. bn_val m' (st' f) =
                (if f \<in> set fs \<and> vals f \<noteq> None then vals f else bn_val m (st f)))"
  using assms
proof (induction fs arbitrary: m st)
  case Nil
  then show ?case by simp
next
  case (Cons g fs)
  show ?case
  proof (cases "vals g")
    case None
    with Cons.prems have "install_bns m fs vals st = (st', m')" by simp
    from Cons.IH [OF this Cons.prems(2)] None show ?thesis by auto
  next
    case (Some v)
    let ?m1 = "m\<lparr>bns := (bns m)(brk m \<mapsto> v), brk := Suc (brk m)\<rparr>"
    let ?st1 = "st(g := Some (brk m))"
    from Cons.prems Some have i: "install_bns ?m1 fs vals ?st1 = (st', m')" by simp
    from Cons.prems(2) have p: "\<forall>f. ptr_below (brk ?m1) (?st1 f)"
      by (auto simp: ptr_below_def intro: less_SucI split: option.splits)
    have b: "bn_val ?m1 (?st1 f) = (if f = g then Some v else bn_val m (st f))" for f
      using Cons.prems(2) [rule_format, of f]
      by (auto simp: bn_val_def ptr_below_def split: option.splits)
    from Cons.IH [OF i p] have q1: "\<forall>f. ptr_below (brk m') (st' f)"
      and q2: "bn_val m' (st' f) =
                (if f \<in> set fs \<and> vals f \<noteq> None then vals f else bn_val ?m1 (?st1 f))" for f
      by blast+
    have "bn_val m' (st' f) =
            (if f \<in> set (g # fs) \<and> vals f \<noteq> None then vals f else bn_val m (st f))" for f
      unfolding q2 b using Some by auto
    with q1 show ?thesis by blast
  qed
qed

lemma dsa_field_listed: "f \<in> set dsa_fields"
  by (cases f) (simp_all add: dsa_fields_def)

lemma rsa_field_listed: "f \<in> set rsa_fields"
  by (cases f) (simp_all add: rsa_fields_def)

lemma install_dsa_view:
  assumes "install_dsa m vals = (d, m')"
  shows "dsa_view m' (Some d) = Some vals"
proof -
  obtain ds m1 where i: "install_bns m dsa_fields vals (\<lambda>f. None) = (ds, m1)"
    by (cases "install_bns m dsa_fields vals (\<lambda>f. None)")
  from install_bns_vals [OF i] have v: "bn_val m1 (ds f) = vals f" for f
    by (cases "vals f") (simp_all add: ptr_below_def bn_val_def dsa_field_listed)
  from assms i have d: "d = brk m1"
    and m': "m' = m1\<lparr>dsas := (dsas m1)(brk m1 \<mapsto> ds), brk := Suc (brk m1)\<rparr>"
    by (auto simp: install_dsa_def)
  have "bn_val m' = bn_val m1" by (rule bn_val_cong) (simp add: m')
  with v have "(\<lambda>f. bn_val m' (ds f)) = vals" by (intro ext) simp
  then show ?thesis by (simp add: dsa_view_def d m')
qed

lemma install_rsa_view:
  assumes "install_rsa m vals = (d, m')"
  shows "rsa_view m' (Some d) = Some vals"
proof -
  obtain ds m1 where i: "install_bns m rsa_fields vals (\<lambda>f. None) = (ds, m1)"
    by (cases "install_bns m rsa_fields vals (\<lambda>f. None)")
  from install_bns_vals [OF i] have v: "bn_val m1 (ds f) = vals f" for f
    by (cases "vals f") (simp_all add: ptr_below_def bn_val_def rsa_field_listed)
  from assms i have d: "d = brk m1"
    and m': "m' = m1\<lparr>rsas := (rsas m1)(brk m1 \<mapsto> ds), brk := Suc (brk m1)\<rparr>"
    by (auto simp: install_rsa_def)
  have "bn_val m' = bn_val m1" by (rule bn_val_cong) (simp add: m')
  with v have "(\<lambda>f. bn_val m' (ds f)) = vals" by (intro ext) simp
  then show ?thesis by (simp add: rsa_view_def d m')
qed

lemma decoded_key_view:
  assumes "decoded_key ext t dsa rsa m = Some (Some key, m')"
  shows "key_view m' key =
           Some \<lparr>kv_type = t, kv_flags = SSH_KEY_FLAG_PRIVATE OR SSH_KEY_FLAG_PUBLIC,
                 kv_type_c = ssh_key_type_to_char ext t,
                 kv_dsa = dsa_view m dsa, kv_rsa = rsa_view m rsa\<rparr>"
proof -
  obtain k0 m1 where n: "ssh_key_new m = (k0, m1)" by (cases "ssh_key_new m")
  with assms have k0: "k0 = Some key"
    by (auto simp: decoded_key_def split: option.splits Option.bind_splits)
  from n k0 have f: "bns m1 = bns m" "dsas m1 = dsas m" "rsas m1 = rsas m"
    by (auto simp: ssh_key_new_def attempt_def split: list.splits bool.splits)
  from assms n k0 obtain ks where ks: "keys m1 key = Some ks"
    and m': "m' = m1\<lparr>keys := (keys m1)(key \<mapsto>
                          ks\<lparr>key_type := t,
                             key_type_c := ssh_key_type_to_char ext t,
                             key_flags := SSH_KEY_FLAG_PRIVATE OR SSH_KEY_FLAG_PUBLIC,
                             key_dsa := dsa,
                             key_rsa := rsa\<rparr>)\<rparr>"
    by (auto simp: decoded_key_def split: option.splits)
  have "dsa_view m' = dsa_view m" by (rule dsa_view_cong) (simp_all add: m' f)
  moreover have "rsa_view m' = rsa_view m" by (rule rsa_view_cong) (simp_all add: m' f)
  ultimately show ?thesis by (simp add: key_view_def m')
qed


lemma read_dsa_key_result:
  assumes a: "pem_arguments session passphrase = (cb, u)"
  shows "(PEM_read_bio_DSAPrivateKey ext b64_key cb u = None \<longrightarrow>
            read_dsa_key ext m session b64_key passphrase t =
              Some (None, ssh_set_error session (Parsing_private_key (ERR_error_string ext)),
                    log_call (Call_PEM_read_bio_DSAPrivateKey cb u) m))
       \<and> (\<forall>vals. PEM_read_bio_DSAPrivateKey ext b64_key cb u = Some vals \<longrightarrow>
            (\<forall>key session' m'.
               read_dsa_key ext m session b64_key passphrase t = Some (Some key, session', m') \<longrightarrow>
               session' = session \<and>
               key_view m' key =
                 Some \<lparr>kv_type = t, kv_flags = SSH_KEY_FLAG_PRIVATE OR SSH_KEY_FLAG_PUBLIC,
                       kv_type_c = ssh_key_type_to_char ext t,
                       kv_dsa = Some vals, kv_rsa = None\<rparr>)
            \<and> (fst (attempt m) \<longrightarrow>
                 (\<exists>key m'. read_dsa_key ext m session b64_key passphrase t =
                    Some (Some key, session, m'))))"
proof (intro conjI allI impI)
  assume "PEM_read_bio_DSAPrivateKey ext b64_key cb u = None"
  with a show "read_dsa_key ext m session b64_key passphrase t =
      Some (None, ssh_set_error session (Parsing_private_key (ERR_error_string ext)),
            log_call (Call_PEM_read_bio_DSAPrivateKey cb u) m)"
    by (simp add: read_dsa_key_def)
next
  fix vals key session' m'
  assume r: "PEM_read_bio_DSAPrivateKey ext b64_key cb u = Some vals"
    and s: "read_dsa_key ext m session b64_key passphrase t = Some (Some key, session', m')"
  obtain d m1 where i: "install_dsa (log_call (Call_PEM_read_bio_DSAPrivateKey cb u) m) vals = (d, m1)"
    by (cases "install_dsa (log_call (Call_PEM_read_bio_DSAPrivateKey cb u) m) vals")
  from s a r i have k: "decoded_key ext t (Some d) None m1 = Some (Some key, m')"
    and e: "session' = session"
    by (auto simp: read_dsa_key_def split: option.splits)
  from decoded_key_view [OF k] install_dsa_view [OF i]
  have "key_view m' key =
      Some \<lparr>kv_type = t, kv_flags = SSH_KEY_FLAG_PRIVATE OR SSH_KEY_FLAG_PUBLIC,
            kv_type_c = ssh_key_type_to_char ext t, kv_dsa = Some vals, kv_rsa = None\<rparr>"
    by (simp add: rsa_view_def)
  with e show "session' = session" and
      "key_view m' key =
        Some \<lparr>kv_type = t, kv_flags = SSH_KEY_FLAG_PRIVATE OR SSH_KEY_FLAG_PUBLIC,
              kv_type_c = ssh_key_type_to_char ext t, kv_dsa = Some vals, kv_rsa = None\<rparr>"
    by simp_all
next
  fix vals
  assume r: "PEM_read_bio_DSAPrivateKey ext b64_key cb u = Some vals" and f: "fst (attempt m)"
  obtain d m1 where i: "install_dsa (log_call (Call_PEM_read_bio_DSAPrivateKey cb u) m) vals = (d, m1)"
    by (cases "install_dsa (log_call (Call_PEM_read_bio_DSAPrivateKey cb u) m) vals")
  from install_dsa_frame [OF i] have "plan m1 = plan m" by (simp add: log_call_def)
  with f have "fst (attempt m1)" by (auto simp: attempt_def split: list.splits)
  from decoded_key_succeeds [OF this, of ext t "(Some d)" "None"] obtain key m' where
    "decoded_key ext t (Some d) None m1 = Some (Some key, m')"
    by blast
  with a r i show "\<exists>key m'. read_dsa_key ext m session b64_key passphrase t =
      Some (Some key, session, m')"
    by (simp add: read_dsa_key_def)
qed

lemma read_rsa_key_result:
  assumes a: "pem_arguments session passphrase = (cb, u)"
  shows "(PEM_read_bio_RSAPrivateKey ext b64_key cb u = None \<longrightarrow>
            read_rsa_key ext m session b64_key passphrase t =
              Some (None, ssh_set_error session (Parsing_private_key (ERR_error_string ext)),
                    log_call (Call_PEM_read_bio_RSAPrivateKey cb u) m))
       \<and> (\<forall>vals. PEM_read_bio_RSAPrivateKey ext b64_key cb u = Some vals \<longrightarrow>
            (\<forall>key session' m'.
               read_rsa_key ext m session b64_key passphrase t = Some (Some key, session', m') \<longrightarrow>
               session' = session \<and>
               key_view m' key =
                 Some \<lparr>kv_type = t, kv_flags = SSH_KEY_FLAG_PRIVATE OR SSH_KEY_FLAG_PUBLIC,
                       kv_type_c = ssh_key_type_to_char ext t,
                       kv_dsa = None, kv_rsa = Some vals\<rparr>)
            \<and> (fst (attempt m) \<longrightarrow>
                 (\<exists>key m'. read_rsa_key ext m session b64_key passphrase t =
                    Some (Some key, session, m'))))"
proof (intro conjI allI impI)
  assume "PEM_read_bio_RSAPrivateKey ext b64_key cb u = None"
  with a show "read_rsa_key ext m session b64_key passphrase t =
      Some (None, ssh_set_error session (Parsing_private_key (ERR_error_string ext)),
            log_call (Call_PEM_read_bio_RSAPrivateKey cb u) m)"
    by (simp add: read_rsa_key_def)
next
  fix vals key session' m'
  assume r: "PEM_read_bio_RSAPrivateKey ext b64_key cb u = Some vals"
    and s: "read_rsa_key ext m session b64_key passphrase t = Some (Some key, session', m')"
  obtain d m1 where i: "install_rsa (log_call (Call_PEM_read_bio_RSAPrivateKey cb u) m) vals = (d, m1)"
    by (cases "install_rsa (log_call (Call_PEM_read_bio_RSAPrivateKey cb u) m) vals")
  from s a r i have k: "decoded_key ext t None (Some d) m1 = Some (Some key, m')"
    and e: "session' = session"
    by (auto simp: read_rsa_key_def split: option.splits)
  from decoded_key_view [OF k] install_rsa_view [OF i]
  have "key_view m' key =
      Some \<lparr>kv_type = t, kv_flags = SSH_KEY_FLAG_PRIVATE OR SSH_KEY_FLAG_PUBLIC,
            kv_type_c = ssh_key_type_to_char ext t, kv_dsa = None, kv_rsa = Some vals\<rparr>"
    by (simp add: dsa_view_def)
  with e show "session' = session" and
      "key_view m' key =
        Some \<lparr>kv_type = t, kv_flags = SSH_KEY_FLAG_PRIVATE OR SSH_KEY_FLAG_PUBLIC,
              kv_type_c = ssh_key_type_to_char ext t, kv_dsa = None, kv_rsa = Some vals\<rparr>"
    by simp_all
next
  fix vals
  assume r: "PEM_read_bio_RSAPrivateKey ext b64_key cb u = Some vals" and f: "fst (attempt m)"
  obtain d m1 where i: "install_rsa (log_call (Call_PEM_read_bio_RSAPrivateKey cb u) m) vals = (d, m1)"
    by (cases "install_rsa (log_call (Call_PEM_read_bio_RSAPrivateKey cb u) m) vals")
  from install_rsa_frame [OF i] have "plan m1 = plan m" by (simp add: log_call_def)
  with f have "fst (attempt m1)" by (auto simp: attempt_def split: list.splits)
  from decoded_key_succeeds [OF this, of ext t "None" "(Some d)"] obtain key m' where
    "decoded_key ext t None (Some d) m1 = Some (Some key, m')"
    by blast
  with a r i show "\<exists>key m'. read_rsa_key ext m session b64_key passphrase t =
      Some (Some key, session, m')"
    by (simp add: read_rsa_key_def)
qed

lemma decode_reading:
  assumes i: "0 \<le> ssh_init ext" and t: "supported (pki_privatekey_type_from_string ext b64_key)"
  shows "(backend_reading ext (pki_privatekey_type_from_string ext b64_key) b64_key
            (chosen_arguments session passphrase) = None \<longrightarrow>
          pki_private_key_from_base64 ext m session b64_key passphrase =
            Some (None, ssh_set_error session (Parsing_private_key (ERR_error_string ext)),
                  log_call (case_prod (pem_call (pki_privatekey_type_from_string ext b64_key))
                              (chosen_arguments session passphrase)) m))
       \<and> (\<forall>v. backend_reading ext (pki_privatekey_type_from_string ext b64_key) b64_key
                 (chosen_arguments session passphrase) = Some v \<longrightarrow>
            (\<forall>key session' m'.
               pki_private_key_from_base64 ext m session b64_key passphrase =
                 Some (Some key, session', m') \<longrightarrow>
               session' = session \<and> key_view m' key = Some v)
            \<and> (fst (attempt m) \<longrightarrow>
                 (\<exists>key m'. pki_private_key_from_base64 ext m session b64_key passphrase =
                    Some (Some key, session, m'))))"
proof -
  define T where "T = pki_privatekey_type_from_string ext b64_key"
  obtain cb u where c: "chosen_arguments session passphrase = (cb, u)"
    by (cases "chosen_arguments session passphrase")
  then have a: "pem_arguments session passphrase = (cb, u)" by (simp add: pem_arguments_chosen)
  from t consider (dss) "T = SSH_KEYTYPE_DSS" | (rsa) "T = SSH_KEYTYPE_RSA \<or> T = SSH_KEYTYPE_RSA1"
    by (auto simp: supported_def T_def)
  then show ?thesis
  proof cases
    case dss
    with i have p: "pki_private_key_from_base64 ext m session b64_key passphrase =
        read_dsa_key ext m session b64_key passphrase T"
      by (simp add: pki_private_key_from_base64_def T_def [symmetric] Let_def)
    from dss have b: "backend_reading ext T b64_key (cb, u) =
        map_option
          (\<lambda>v. \<lparr>kv_type = T, kv_flags = SSH_KEY_FLAG_PRIVATE OR SSH_KEY_FLAG_PUBLIC,
                 kv_type_c = ssh_key_type_to_char ext T, kv_dsa = Some v, kv_rsa = None\<rparr>)
          (PEM_read_bio_DSAPrivateKey ext b64_key cb u)"
      by (simp add: backend_reading_def)
    from dss have e: "pem_call T cb u = Call_PEM_read_bio_DSAPrivateKey cb u"
      by (simp add: pem_call_def)
    from read_dsa_key_result [OF a, of ext b64_key m T] show ?thesis
      unfolding T_def [symmetric] c p b by (auto simp: e)
  next
    case rsa
    with i have p: "pki_private_key_from_base64 ext m session b64_key passphrase =
        read_rsa_key ext m session b64_key passphrase T"
      by (auto simp: pki_private_key_from_base64_def T_def [symmetric] Let_def)
    from rsa have b: "backend_reading ext T b64_key (cb, u) =
        map_option
          (\<lambda>v. \<lparr>kv_type = T, kv_flags = SSH_KEY_FLAG_PRIVATE OR SSH_KEY_FLAG_PUBLIC,
                 kv_type_c = ssh_key_type_to_char ext T, kv_dsa = None, kv_rsa = Some v\<rparr>)
          (PEM_read_bio_RSAPrivateKey ext b64_key cb u)"
      by (auto simp: backend_reading_def)
    from rsa have e: "pem_call T cb u = Call_PEM_read_bio_RSAPrivateKey cb u"
      by (auto simp: pem_call_def)
    from read_rsa_key_result [OF a, of ext b64_key m T] show ?thesis
      unfolding T_def [symmetric] c p b by (auto simp: e)
  qed
qed

text \<open>
  C5. For a text of a supported family the decoder hands the text to the PEM reader of
  the family with the passphrase source of the spec: the direct passphrase with no
  callback when a passphrase is given, also when a provider is available; the callback
  of this file with the session when no passphrase is given and the session has a
  provider; and neither otherwise, which leaves the backend to its own prompt. What the
  decoder returns is what the reader returns on these arguments: when the reader returns
  NULL, the decoder returns NULL and stores the parsing error in the session; when the
  reader returns a key, every handle the decoder returns denotes that key, PRIVATE and
  PUBLIC, and the decoder returns one whenever its own allocation succeeds. The call of
  the reader is the one call made to the backend. With a passphrase given the result
  does not depend on the session's callbacks.
\<close>

theorem decoder_passphrase_precedence:
  assumes "0 \<le> ssh_init ext" and "supported (pki_privatekey_type_from_string ext b64_key)"
  shows "(backend_reading ext (pki_privatekey_type_from_string ext b64_key) b64_key
            (chosen_arguments session passphrase) = None \<longrightarrow>
          pki_private_key_from_base64 ext m session b64_key passphrase =
            Some (None, ssh_set_error session (Parsing_private_key (ERR_error_string ext)),
                  log_call (case_prod (pem_call (pki_privatekey_type_from_string ext b64_key))
                              (chosen_arguments session passphrase)) m))
       \<and> (\<forall>v. backend_reading ext (pki_privatekey_type_from_string ext b64_key) b64_key
                 (chosen_arguments session passphrase) = Some v \<longrightarrow>
            (\<forall>key session' m'.
               pki_private_key_from_base64 ext m session b64_key passphrase =
                 Some (Some key, session', m') \<longrightarrow>
               session' = session \<and> key_view m' key = Some v)
            \<and> (fst (attempt m) \<longrightarrow>
                 (\<exists>key m'. pki_private_key_from_base64 ext m session b64_key passphrase =
                    Some (Some key, session, m'))))
       \<and> (\<forall>key session' m'.
            pki_private_key_from_base64 ext m session b64_key passphrase =
              Some (key, session', m') \<longrightarrow>
            trace m' = trace m @
              [case_prod (pem_call (pki_privatekey_type_from_string ext b64_key))
                 (chosen_arguments session passphrase)])
       \<and> (fst (attempt m) \<longrightarrow>
            pki_private_key_from_base64 ext m session b64_key passphrase \<noteq> None)
       \<and> (\<forall>pw c.
            pki_private_key_from_base64 ext m (session\<lparr>callbacks := c\<rparr>) b64_key (Some pw) =
              map_option (\<lambda>(k, s, m'). (k, s\<lparr>callbacks := c\<rparr>, m'))
                (pki_private_key_from_base64 ext m session b64_key (Some pw)))"
    (is "?A \<and> ?B \<and> ?C \<and> ?D \<and> ?E")
proof -
  note r = decode_reading [OF assms, of session passphrase m]
  have a: ?A by (rule conjunct1 [OF r])
  have b: ?B by (rule conjunct2 [OF r])
  have c: ?C
  proof (intro allI impI)
    fix key session' m'
    assume "pki_private_key_from_base64 ext m session b64_key passphrase = Some (key, session', m')"
    from decode_trace [OF assms this]
    show "trace m' = trace m @
        [case_prod (pem_call (pki_privatekey_type_from_string ext b64_key))
           (chosen_arguments session passphrase)]" .
  qed
  have d: ?D
  proof
    assume "fst (attempt m)"
    from decode_succeeds [OF assms this, of session passphrase]
    show "pki_private_key_from_base64 ext m session b64_key passphrase \<noteq> None" by auto
  qed
  have e: ?E by (intro allI) (rule decode_provider_unused)
  show ?thesis by (intro conjI a b c d e)
qed

text \<open>
  A session with a provider. With the passphrase \<open>pw\<close> the DSA reader is called with the
  passphrase and no callback, and the handle at 46 denotes the key it reads, each field
  7, PRIVATE and PUBLIC. Without a passphrase the reader is called with the callback
  and the session; this backend then reads no key, and the decoder returns NULL with
  the parsing error.
\<close>

theorem decoder_passphrase_precedence_witness:
  "0 \<le> ssh_init ex_backend
   \<and> supported (pki_privatekey_type_from_string ex_backend ''D'')
   \<and> has_provider (ex_session (Some ex_secret))
   \<and> (case pki_private_key_from_base64 ex_backend ex_mem (ex_session (Some ex_secret)) ''D''
             (Some ''pw'') of
        Some (Some key, session', m') \<Rightarrow>
          key = 46 \<and> session' = ex_session (Some ex_secret) \<and>
          trace m' = [Call_PEM_read_bio_DSAPrivateKey None (U_passphrase ''pw'')] \<and>
          map_option kv_type (key_view m' key) = Some SSH_KEYTYPE_DSS \<and>
          map_option kv_flags (key_view m' key) =
            Some (SSH_KEY_FLAG_PRIVATE OR SSH_KEY_FLAG_PUBLIC) \<and>
          map_option (\<lambda>kv. map_option (\<lambda>v. map v dsa_fields) (kv_dsa kv)) (key_view m' key) =
            Some (Some [Some 7, Some 7, Some 7, Some 7, Some 7])
      | _ \<Rightarrow> False)
   \<and> pki_private_key_from_base64 ex_backend ex_mem (ex_session (Some ex_secret)) ''D'' None =
       Some (None,
             ssh_set_error (ex_session (Some ex_secret)) (Parsing_private_key ''error''),
             log_call (Call_PEM_read_bio_DSAPrivateKey (Some Pem_get_password)
                         (U_session (ex_session (Some ex_secret)))) ex_mem)"
proof -
  let ?S = "ex_session (Some ex_secret)"
  have 1: "0 \<le> ssh_init ex_backend" by (simp add: ex_backend_def)
  have 2: "supported (pki_privatekey_type_from_string ex_backend ''D'')"
    by (simp add: ex_backend_def supported_def)
  have 3: "has_provider ?S"
    by (simp add: has_provider_def ex_session_def)
  have t: "pki_privatekey_type_from_string ex_backend ''D'' = SSH_KEYTYPE_DSS"
    by (simp add: ex_backend_def)
  have "\<exists>s' m'. pki_private_key_from_base64 ex_backend ex_mem ?S ''D'' (Some ''pw'') =
          Some (Some 46, s', m')"
    by (simp add: pki_private_key_from_base64_def read_dsa_key_def pem_arguments_def
          ex_backend_def ex_mem_def install_dsa_def dsa_fields_def decoded_key_def
          ssh_key_new_def attempt_def log_call_def)
  then obtain s' m' where
    r: "pki_private_key_from_base64 ex_backend ex_mem ?S ''D'' (Some ''pw'') = Some (Some 46, s', m')"
    by blast
  note with_pw = decoder_passphrase_precedence
    [OF 1 2, where session = "?S" and passphrase = "Some ''pw''" and m = ex_mem]
  note without = decoder_passphrase_precedence
    [OF 1 2, where session = "?S" and passphrase = None and m = ex_mem]
  have b: "backend_reading ex_backend (pki_privatekey_type_from_string ex_backend ''D'') ''D''
             (chosen_arguments ?S (Some ''pw'')) =
           Some \<lparr>kv_type = SSH_KEYTYPE_DSS,
                 kv_flags = SSH_KEY_FLAG_PRIVATE OR SSH_KEY_FLAG_PUBLIC,
                 kv_type_c = Some ''ssh-dss'', kv_dsa = Some (\<lambda>f. Some 7), kv_rsa = None\<rparr>"
    by (simp add: backend_reading_def chosen_arguments_def ex_backend_def)
  from conjunct1 [OF conjunct2 [OF with_pw], rule_format, OF b, THEN conjunct1, rule_format, OF r]
  have v: "s' = ?S \<and>
           key_view m' 46 =
             Some \<lparr>kv_type = SSH_KEYTYPE_DSS,
                   kv_flags = SSH_KEY_FLAG_PRIVATE OR SSH_KEY_FLAG_PUBLIC,
                   kv_type_c = Some ''ssh-dss'', kv_dsa = Some (\<lambda>f. Some 7), kv_rsa = None\<rparr>" .
  from conjunct1 [OF conjunct2 [OF conjunct2 [OF with_pw]], rule_format, OF r]
  have "trace m' = trace ex_mem @
      [case_prod (pem_call (pki_privatekey_type_from_string ex_backend ''D''))
         (chosen_arguments ?S (Some ''pw''))]" .
  then have tr: "trace m' = [Call_PEM_read_bio_DSAPrivateKey None (U_passphrase ''pw'')]"
    by (simp add: ex_mem_def t pem_call_def chosen_arguments_def)
  have n: "backend_reading ex_backend (pki_privatekey_type_from_string ex_backend ''D'') ''D''
             (chosen_arguments ?S None) = None"
    by (simp add: backend_reading_def chosen_arguments_def 3 ex_backend_def)
  from conjunct1 [OF without, rule_format, OF n]
  have w: "pki_private_key_from_base64 ex_backend ex_mem ?S ''D'' None =
      Some (None, ssh_set_error ?S (Parsing_private_key ''error''),
            log_call (Call_PEM_read_bio_DSAPrivateKey (Some Pem_get_password) (U_session ?S)) ex_mem)"
    by (simp add: t pem_call_def chosen_arguments_def 3) (simp add: ex_backend_def)
  from 1 2 3 r v tr w show ?thesis by (simp add: dsa_fields_def)
qed

section \<open>The encoder\<close>

lemmas to_string_defs = pki_publickey_to_string_def to_string_dss_def to_string_rsa_def
  to_string_finish_def to_string_fail_def ssh_string_release_def no_strings_def
  orfail_def dsa_field_string_def rsa_field_string_def get_dsa_field_def get_rsa_field_def
  make_bignum_string_def new_bytes_def attempt_def buffer_add_ssh_string_def
  ssh_buffer_new_def ssh_string_from_char_def ssh_string_new_def

lemma pki_publickey_to_string_dss:
  assumes "keys m key = Some ks" and "key_type_c ks = Some name"
    and "key_type ks = SSH_KEYTYPE_DSS"
    and "key_dsa ks = Some sp" and "dsas m sp = Some st"
    and "st DSA_p = Some xp" and "bns m xp = Some vp"
    and "st DSA_q = Some xq" and "bns m xq = Some vq"
    and "st DSA_g = Some xg" and "bns m xg = Some vg"
    and "st DSA_pub_key = Some xy" and "bns m xy = Some vy"
  shows "(\<forall>s m'. pki_publickey_to_string m key = Some (Some s, m') \<longrightarrow>
            s = public_blob name [vp, vq, vg, vy])
       \<and> ((\<forall>s m'. pki_publickey_to_string m key \<noteq> Some (Some s, m')) \<longrightarrow> False \<in> set (plan m))
       \<and> (plan m = [] \<longrightarrow>
            pki_publickey_to_string m key = Some (Some (public_blob name [vp, vq, vg, vy]), m))"
  using assms
  by (auto simp: to_string_defs public_blob_def Let_def split: list.splits bool.splits)

lemma pki_publickey_to_string_dss_fault:
  assumes "keys m key = Some ks" and "key_type_c ks = Some name"
    and "key_type ks = SSH_KEYTYPE_DSS"
    and "key_dsa ks = Some sp" and "dsas m sp = Some st"
    and "st DSA_p = Some xp" and "bns m xp = Some vp"
    and "st DSA_q = Some xq" and "bns m xq = Some vq"
    and "st DSA_g = Some xg" and "bns m xg = Some vg"
    and "st DSA_pub_key = Some xy" and "bns m xy = Some vy"
  shows "pki_publickey_to_string m key = None \<longleftrightarrow>
            (\<exists>rest. plan m =
               True # True # True # True # True # True # True # True # True # True # True #
               False # rest)"
  using assms
  by (auto simp: to_string_defs Let_def split: list.splits bool.splits)

lemma pki_publickey_to_string_rsa:
  assumes "keys m key = Some ks" and "key_type_c ks = Some name"
    and "key_type ks = SSH_KEYTYPE_RSA \<or> key_type ks = SSH_KEYTYPE_RSA1"
    and "key_rsa ks = Some sp" and "rsas m sp = Some st"
    and "st RSA_e = Some xe" and "bns m xe = Some ve"
    and "st RSA_n = Some xn" and "bns m xn = Some vn"
  shows "(\<forall>s m'. pki_publickey_to_string m key = Some (Some s, m') \<longrightarrow>
            s = public_blob name [ve, vn])
       \<and> ((\<forall>s m'. pki_publickey_to_string m key \<noteq> Some (Some s, m')) \<longrightarrow> False \<in> set (plan m))
       \<and> (plan m = [] \<longrightarrow>
            pki_publickey_to_string m key = Some (Some (public_blob name [ve, vn]), m))"
  using assms
  by (auto simp: to_string_defs public_blob_def Let_def split: list.splits bool.splits)

lemma pki_publickey_to_string_rsa_fault:
  assumes "keys m key = Some ks" and "key_type_c ks = Some name"
    and "key_type ks = SSH_KEYTYPE_RSA \<or> key_type ks = SSH_KEYTYPE_RSA1"
    and "key_rsa ks = Some sp" and "rsas m sp = Some st"
    and "st RSA_e = Some xe" and "bns m xe = Some ve"
    and "st RSA_n = Some xn" and "bns m xn = Some vn"
  shows "pki_publickey_to_string m key = None \<longleftrightarrow>
            (\<exists>rest. plan m = True # True # True # True # True # True # True # False # rest)"
  using assms
  by (auto simp: to_string_defs Let_def split: list.splits bool.splits)

lemma bn_val_SomeD: "bn_val m a = Some v \<Longrightarrow> \<exists>x. a = Some x \<and> bns m x = Some v"
  by (auto simp: bn_val_def split: option.splits)

lemma dsa_view_SomeD:
  "dsa_view m d = Some v \<Longrightarrow> \<exists>sp st. d = Some sp \<and> dsas m sp = Some st \<and> v = (\<lambda>f. bn_val m (st f))"
  by (auto simp: dsa_view_def split: option.splits)

lemma rsa_view_SomeD:
  "rsa_view m d = Some v \<Longrightarrow> \<exists>sp st. d = Some sp \<and> rsas m sp = Some st \<and> v = (\<lambda>f. bn_val m (st f))"
  by (auto simp: rsa_view_def split: option.splits)

subsection \<open>The wire format read back\<close>

lemma bytes_to_nat_snoc: "bytes_to_nat (bs @ [b]) = bytes_to_nat bs * 256 + unat b"
  by (simp add: bytes_to_nat_def)

lemma bytes_to_nat_zero: "bytes_to_nat (0 # bs) = bytes_to_nat bs"
  by (simp add: bytes_to_nat_def)

lemma unat_byte_of_nat: "unat (of_nat k :: byte) = k mod 256"
  by (simp add: unat_of_nat)

lemma bytes_to_nat_nat_to_bytes: "bytes_to_nat (nat_to_bytes n) = n"
proof (induction n rule: nat_to_bytes.induct)
  case (1 n)
  show ?case
  proof (cases "n = 0")
    case True
    then show ?thesis by (simp add: bytes_to_nat_def)
  next
    case False
    with 1 have "bytes_to_nat (nat_to_bytes (n div 256)) = n div 256" by simp
    with False show ?thesis
      by (subst nat_to_bytes.simps) (simp add: bytes_to_nat_snoc unat_byte_of_nat del: nat_to_bytes.simps)
  qed
qed

lemma bytes_to_nat_bignum_bytes: "bytes_to_nat (bignum_bytes v) = v"
proof -
  have "bytes_to_nat (bignum_bytes v) = bytes_to_nat (nat_to_bytes v)"
    by (cases "nat_to_bytes v") (simp_all add: bignum_bytes_def bytes_to_nat_zero del: nat_to_bytes.simps)
  then show ?thesis by (simp add: bytes_to_nat_nat_to_bytes del: nat_to_bytes.simps)
qed

lemma be32_byte:
  assumes "n < 2 ^ 32"
  shows "unat (ucast (drop_bit k (of_nat n :: 32 word)) :: byte) = n div 2 ^ k mod 256"
proof -
  have u: "unat (of_nat n :: 32 word) = n" using assms by (simp add: unat_of_nat)
  show ?thesis
    unfolding unsigned_ucast_eq unat_drop_bit_eq u by (simp add: drop_bit_eq_div take_bit_eq_mod)
qed

lemma be32_last_byte:
  assumes "n < 2 ^ 32"
  shows "unat (ucast (of_nat n :: 32 word) :: byte) = n mod 256"
  using be32_byte [OF assms, of 0] by simp

lemma radix_256:
  fixes n :: nat
  assumes "n < 2 ^ 32"
  shows "((n div 2 ^ 24 mod 256 * 256 + n div 2 ^ 16 mod 256) * 256 + n div 2 ^ 8 mod 256) * 256
           + n mod 256 = n"
proof -
  define x1 where "x1 = n div 256"
  define x2 where "x2 = x1 div 256"
  define x3 where "x3 = x2 div 256"
  define r0 where "r0 = n mod 256"
  define r1 where "r1 = x1 mod 256"
  define r2 where "r2 = x2 mod 256"
  have d8: "n div 2 ^ 8 = x1" by (simp add: x1_def)
  have d16: "n div 2 ^ 16 = x2" by (simp add: x1_def x2_def div_mult2_eq)
  have d24: "n div 2 ^ 24 = x3" by (simp add: x1_def x2_def x3_def div_mult2_eq)
  from assms have "x3 < 256" unfolding d24 [symmetric] by (simp add: less_mult_imp_div_less)
  then have e4: "x3 mod 256 = x3" by simp
  have e1: "n = x1 * 256 + r0" by (simp add: x1_def r0_def)
  have e2: "x1 = x2 * 256 + r1" by (simp add: x2_def r1_def)
  have e3: "x2 = x3 * 256 + r2" by (simp add: x3_def r2_def)
  have "((x3 * 256 + r2) * 256 + r1) * 256 + r0 = n"
    using e1 e2 e3 by simp
  then show ?thesis
    unfolding d8 d16 d24 e4 r0_def [symmetric] r1_def [symmetric] r2_def [symmetric] .
qed

lemma bytes_to_nat_be32:
  assumes "n < 2 ^ 32"
  shows "bytes_to_nat (be32 (of_nat n)) = n"
proof -
  have "bytes_to_nat (be32 (of_nat n)) =
      ((n div 2 ^ 24 mod 256 * 256 + n div 2 ^ 16 mod 256) * 256 + n div 2 ^ 8 mod 256) * 256
        + n mod 256"
    unfolding be32_def bytes_to_nat_def foldl.simps
      be32_byte [OF assms] be32_last_byte [OF assms]
    by simp
  also have "\<dots> = n" by (rule radix_256 [OF assms])
  finally show ?thesis .
qed

lemma length_be32: "length (be32 w) = 4"
  by (simp add: be32_def)

lemma read_strings_wire:
  assumes "\<forall>s \<in> set ss. length s < 2 ^ 32"
  shows "read_strings (length ss) (concat (map ssh_string_wire ss)) = Some ss"
  using assms
proof (induction ss)
  case Nil
  then show ?case by simp
next
  case (Cons s ss)
  then have l: "length s < 2 ^ 32" and r: "read_strings (length ss) (concat (map ssh_string_wire ss)) = Some ss"
    by simp_all
  let ?rest = "concat (map ssh_string_wire ss)"
  have w: "concat (map ssh_string_wire (s # ss)) = be32 (of_nat (length s)) @ s @ ?rest"
    by (simp add: ssh_string_wire_def)
  have t: "take 4 (be32 (of_nat (length s)) @ s @ ?rest) = be32 (of_nat (length s))"
    and d: "drop 4 (be32 (of_nat (length s)) @ s @ ?rest) = s @ ?rest"
    by (simp_all add: length_be32)
  show ?case
    unfolding w length_Cons read_strings.simps t d Let_def bytes_to_nat_be32 [OF l]
    using r by (simp add: length_be32)
qed

lemma public_blob_reads_back:
  assumes "length name < 2 ^ 32" and "\<forall>v \<in> set vs. length (bignum_bytes v) < 2 ^ 32"
  shows "read_strings (Suc (length vs)) (public_blob name vs) =
           Some (bytes_of_string name # map bignum_bytes vs)"
proof -
  let ?ss = "bytes_of_string name # map bignum_bytes vs"
  have b: "public_blob name vs = concat (map ssh_string_wire ?ss)"
    by (simp add: public_blob_def comp_def)
  from assms have "\<forall>s \<in> set ?ss. length s < 2 ^ 32" by (simp add: bytes_of_string_def)
  from read_strings_wire [OF this]
  show "read_strings (Suc (length vs)) (public_blob name vs) = Some ?ss"
    unfolding b by simp
qed

lemma bignum_bytes_read_back: "map bytes_to_nat (map bignum_bytes vs) = vs"
  by (induction vs) (simp_all add: bytes_to_nat_bignum_bytes)

lemma read_blob_public_blob:
  assumes "length name < 2 ^ 32" and "\<forall>v \<in> set vs. length (bignum_bytes v) < 2 ^ 32"
  shows "read_blob (length vs) (public_blob name vs) = Some (bytes_of_string name, vs)"
  using public_blob_reads_back [OF assms] bignum_bytes_read_back [of vs]
  by (simp add: read_blob_def)

subsection \<open>The result of the encoder\<close>

text \<open>
  The allocations the function makes before the last one: the buffer, the type name and
  its addition to the buffer, then one string per public field and one addition each.
\<close>

lemma pki_publickey_to_string_result:
  assumes k: "keys m key = Some ks" and c: "key_type_c ks = Some name"
    and v: "public_values m ks = Some vs"
  shows "((\<forall>s m'. pki_publickey_to_string m key = Some (Some s, m') \<longrightarrow> s = public_blob name vs)
       \<and> ((\<forall>s m'. pki_publickey_to_string m key \<noteq> Some (Some s, m')) \<longrightarrow> False \<in> set (plan m))
       \<and> (plan m = [] \<longrightarrow>
            pki_publickey_to_string m key = Some (Some (public_blob name vs), m)))
       \<and> (pki_publickey_to_string m key = None \<longleftrightarrow>
            (\<exists>rest. plan m = replicate (3 + 2 * length vs) True @ False # rest))"
    (is "?three \<and> ?fault")
proof -
  from v consider
    (dss) "key_type ks = SSH_KEYTYPE_DSS"
    | (rsa) "key_type ks = SSH_KEYTYPE_RSA \<or> key_type ks = SSH_KEYTYPE_RSA1"
    by (cases "key_type ks") (simp_all add: public_values_def)
  then show ?thesis
  proof cases
    case dss
    with v obtain w where w: "dsa_view m (key_dsa ks) = Some w"
      and t: "those [w DSA_p, w DSA_q, w DSA_g, w DSA_pub_key] = Some vs"
      by (auto simp: public_values_def split: option.splits)
    from t obtain vp vq vg vy where
      f: "w DSA_p = Some vp" "w DSA_q = Some vq" "w DSA_g = Some vg" "w DSA_pub_key = Some vy"
      and vs: "vs = [vp, vq, vg, vy]"
      by (auto split: option.splits)
    from dsa_view_SomeD [OF w] obtain sp st where
      s: "key_dsa ks = Some sp" "dsas m sp = Some st" and w': "w = (\<lambda>f. bn_val m (st f))"
      by blast
    from f w' obtain xp xq xg xy where
      "st DSA_p = Some xp" "bns m xp = Some vp" "st DSA_q = Some xq" "bns m xq = Some vq"
      "st DSA_g = Some xg" "bns m xg = Some vg" "st DSA_pub_key = Some xy" "bns m xy = Some vy"
      by (auto dest!: bn_val_SomeD)
    note a = this
    have n: "replicate (3 + 2 * length [vp, vq, vg, vy]) True @ False # rest =
        True # True # True # True # True # True # True # True # True # True # True #
        False # rest" for rest
      by (simp add: replicate_numeral)
    from pki_publickey_to_string_dss [OF k c dss s a] have 1: ?three unfolding vs .
    from pki_publickey_to_string_dss_fault [OF k c dss s a] have 2: ?fault unfolding vs n .
    from 1 2 show ?thesis by (rule conjI)
  next
    case rsa
    with v obtain w where w: "rsa_view m (key_rsa ks) = Some w"
      and t: "those [w RSA_e, w RSA_n] = Some vs"
      by (auto simp: public_values_def split: option.splits)
    from t obtain ve vn where
      f: "w RSA_e = Some ve" "w RSA_n = Some vn" and vs: "vs = [ve, vn]"
      by (auto split: option.splits)
    from rsa_view_SomeD [OF w] obtain sp st where
      s: "key_rsa ks = Some sp" "rsas m sp = Some st" and w': "w = (\<lambda>f. bn_val m (st f))"
      by blast
    from f w' obtain xe xn where
      "st RSA_e = Some xe" "bns m xe = Some ve" "st RSA_n = Some xn" "bns m xn = Some vn"
      by (auto dest!: bn_val_SomeD)
    note a = this
    have n: "replicate (3 + 2 * length [ve, vn]) True @ False # rest =
        True # True # True # True # True # True # True # False # rest" for rest
      by (simp add: replicate_numeral)
    from pki_publickey_to_string_rsa [OF k c rsa s a] have 1: ?three unfolding vs .
    from pki_publickey_to_string_rsa_fault [OF k c rsa s a] have 2: ?fault unfolding vs n .
    from 1 2 show ?thesis by (rule conjI)
  qed
qed

text \<open>
  C3. For a handle of a supported family whose type name and public fields are present,
  every string the encoder returns is the blob of the spec: the length-prefixed type
  name followed by the length-prefixed public fields in the order of the family, for
  DSA p, q, g and the public value, for RSA the public exponent and the modulus. It
  returns a string unless an allocation fails, and when none fails it returns the blob
  and leaves the memory as it was. Read back as a sequence of length-prefixed strings,
  the returned string gives the type name and the values of the fields, in that order
  and with nothing else, as long as each length fits the 32 bits of its prefix.
\<close>

theorem pki_publickey_to_string_layout:
  assumes k: "keys m key = Some ks" and c: "key_type_c ks = Some name"
    and v: "public_values m ks = Some vs"
  shows "(\<forall>s m'. pki_publickey_to_string m key = Some (Some s, m') \<longrightarrow> s = public_blob name vs)
       \<and> ((\<forall>s m'. pki_publickey_to_string m key \<noteq> Some (Some s, m')) \<longrightarrow> False \<in> set (plan m))
       \<and> (plan m = [] \<longrightarrow>
            pki_publickey_to_string m key = Some (Some (public_blob name vs), m))
       \<and> (length name < 2 ^ 32 \<and> (\<forall>v \<in> set vs. length (bignum_bytes v) < 2 ^ 32) \<longrightarrow>
            (\<forall>s m'. pki_publickey_to_string m key = Some (Some s, m') \<longrightarrow>
               read_blob (length vs) s = Some (bytes_of_string name, vs)))"
    (is "?A \<and> ?B \<and> ?C \<and> ?D")
proof -
  note r = conjunct1 [OF pki_publickey_to_string_result [OF k c v]]
  have a: ?A by (rule conjunct1 [OF r])
  have b: ?B by (rule conjunct1 [OF conjunct2 [OF r]])
  have c: ?C by (rule conjunct2 [OF conjunct2 [OF r]])
  have d: ?D
  proof (intro impI allI)
    fix s m'
    assume l: "length name < 2 ^ 32 \<and> (\<forall>v \<in> set vs. length (bignum_bytes v) < 2 ^ 32)"
      and "pki_publickey_to_string m key = Some (Some s, m')"
    with a have "s = public_blob name vs" by blast
    with read_blob_public_blob [OF conjunct1 [OF l] conjunct2 [OF l]]
    show "read_blob (length vs) s = Some (bytes_of_string name, vs)" by simp
  qed
  show ?thesis by (intro conjI a b c d)
qed

lemma public_blob_example: "public_blob ''ssh-dss'' [23, 11, 4, 200] =
   [0, 0, 0, 7, 115, 115, 104, 45, 100, 115, 115,
    0, 0, 0, 1, 23, 0, 0, 0, 1, 11, 0, 0, 0, 1, 4, 0, 0, 0, 2, 0, 200]"
  by (simp add: public_blob_def ssh_string_wire_def be32_def bignum_bytes_def bytes_of_string_def)

text \<open>
  The public DSA key at 4, with p = 23, q = 11, g = 4 and the public value 200, whose
  top bit is set and which therefore gets a leading zero byte.
\<close>

theorem pki_publickey_to_string_layout_witness:
  "map_option key_type_c (keys ex_mem 4) = Some (Some ''ssh-dss'')
   \<and> map_option (public_values ex_mem) (keys ex_mem 4) = Some (Some [23, 11, 4, 200])
   \<and> pki_publickey_to_string ex_mem 4 =
       Some (Some [0, 0, 0, 7, 115, 115, 104, 45, 100, 115, 115,
                   0, 0, 0, 1, 23, 0, 0, 0, 1, 11, 0, 0, 0, 1, 4, 0, 0, 0, 2, 0, 200], ex_mem)
   \<and> read_blob 4 [0, 0, 0, 7, 115, 115, 104, 45, 100, 115, 115,
                   0, 0, 0, 1, 23, 0, 0, 0, 1, 11, 0, 0, 0, 1, 4, 0, 0, 0, 2, 0, 200] =
       Some ([115, 115, 104, 45, 100, 115, 115], [23, 11, 4, 200])"
proof -
  let ?ks = "\<lparr>key_type = SSH_KEYTYPE_DSS, key_flags = SSH_KEY_FLAG_PUBLIC,
                key_type_c = Some ''ssh-dss'', key_dsa = Some 5, key_rsa = None\<rparr>"
  let ?blob = "[0, 0, 0, 7, 115, 115, 104, 45, 100, 115, 115,
                0, 0, 0, 1, 23, 0, 0, 0, 1, 11, 0, 0, 0, 1, 4, 0, 0, 0, 2, 0, 200] :: byte list"
  have k: "keys ex_mem 4 = Some ?ks" by (simp add: ex_mem_def)
  have c: "key_type_c ?ks = Some ''ssh-dss''" by simp
  have v: "public_values ex_mem ?ks = Some [23, 11, 4, 200]"
    by (simp add: public_values_def dsa_view_def bn_val_def ex_mem_def ex_dsa_public_def)
  have p: "plan ex_mem = []" by (simp add: ex_mem_def)
  have l: "length ''ssh-dss'' < 2 ^ 32 \<and>
           (\<forall>v \<in> set [23, 11, 4, 200]. length (bignum_bytes v) < 2 ^ 32)"
    by (simp add: bignum_bytes_def)
  note inst = pki_publickey_to_string_layout [OF k c v]
  from conjunct1 [OF conjunct2 [OF conjunct2 [OF inst]], rule_format, OF p]
  have r: "pki_publickey_to_string ex_mem 4 = Some (Some ?blob, ex_mem)"
    by (simp add: public_blob_example)
  from conjunct2 [OF conjunct2 [OF conjunct2 [OF inst]], rule_format, OF l r]
  have rb: "read_blob (length [23, 11, 4, 200 :: nat]) ?blob =
      Some (bytes_of_string ''ssh-dss'', [23, 11, 4, 200])" .
  have n: "length [23, 11, 4, 200 :: nat] = 4" by simp
  have bs: "bytes_of_string ''ssh-dss'' = [115, 115, 104, 45, 100, 115, 115]"
    by (simp add: bytes_of_string_def)
  from rb have b: "read_blob 4 ?blob = Some ([115, 115, 104, 45, 100, 115, 115], [23, 11, 4, 200])"
    unfolding n bs .
  from k v r b show ?thesis by simp
qed

text \<open>
  The failure of the last allocation. When every allocation before it has succeeded, the
  field strings have been burnt and freed at lines 416 to 423 (DSA) or 445 to 448
  (RSA), and the variables still point to them. If \<^verbatim>\<open>ssh_string_new\<close> then returns NULL,
  the function jumps to \<^verbatim>\<open>fail\<close>, which burns and frees the same strings a second time.
  This is the one way in which the encoder leaves defined behaviour on such a handle.
\<close>

lemma pki_publickey_to_string_double_free:
  assumes "keys m key = Some ks" and "key_type_c ks = Some name"
    and "public_values m ks = Some vs"
  shows "pki_publickey_to_string m key = None \<longleftrightarrow>
           (\<exists>rest. plan m = replicate (3 + 2 * length vs) True @ False # rest)"
  using pki_publickey_to_string_result [OF assms] by (rule conjunct2)

lemma pki_publickey_to_string_double_free_example:
  "pki_publickey_to_string (ex_mem\<lparr>plan := replicate 11 True @ [False]\<rparr>) 4 = None
   \<and> (\<exists>m'. pki_publickey_to_string (ex_mem\<lparr>plan := replicate 10 True @ [False]\<rparr>) 4 =
             Some (None, m'))"
  by (simp add: to_string_defs ex_mem_def ex_dsa_public_def replicate_numeral)

section \<open>The duplicator\<close>

lemma mem_okD:
  assumes "mem_ok m"
  shows "bns m a = Some v \<Longrightarrow> a < brk m"
    and "dsas m a = Some ds \<Longrightarrow> a < brk m \<and> ptr_below (brk m) (ds f)"
    and "rsas m a = Some rs \<Longrightarrow> a < brk m \<and> ptr_below (brk m) (rs g)"
    and "keys m a = Some ks \<Longrightarrow> a < brk m \<and> ptr_below (brk m) (key_dsa ks) \<and> ptr_below (brk m) (key_rsa ks)"
  using assms unfolding mem_ok_def by blast+

lemma mem_ok_fresh:
  assumes "mem_ok m"
  shows "bns m (brk m) = None" and "dsas m (brk m) = None" and "rsas m (brk m) = None"
    and "keys m (brk m) = None"
  using assms unfolding mem_ok_def by (metis less_irrefl not_Some_eq)+

lemma mem_ok_plan: "mem_ok (m\<lparr>plan := p\<rparr>) = mem_ok m"
  by (simp add: mem_ok_def)

lemma ptr_below_mono: "ptr_below b a \<Longrightarrow> b \<le> c \<Longrightarrow> ptr_below c a"
  by (auto simp: ptr_below_def split: option.splits)

lemma bn_val_below:
  "bns m' = (bns m)(b \<mapsto> v) \<Longrightarrow> ptr_below b a \<Longrightarrow> bn_val m' a = bn_val m a"
  by (auto simp: ptr_below_def bn_val_def split: option.splits)

lemma ptr_below_Suc: "ptr_below b a \<Longrightarrow> ptr_below (Suc b) a"
  by (erule ptr_below_mono) simp

lemma mem_ok_alloc_bn:
  assumes "mem_ok m"
  shows "mem_ok (m\<lparr>bns := (bns m)(brk m \<mapsto> v), brk := Suc (brk m)\<rparr>)"
  using assms unfolding mem_ok_def
  by (simp add: less_SucI ptr_below_Suc)

lemma mem_ok_alloc_dsa:
  assumes "mem_ok m"
  shows "mem_ok (m\<lparr>dsas := (dsas m)(brk m \<mapsto> (\<lambda>f. None)), brk := Suc (brk m)\<rparr>)"
  using assms unfolding mem_ok_def
  by (simp add: less_SucI ptr_below_Suc) (simp add: ptr_below_def)

lemma mem_ok_alloc_rsa:
  assumes "mem_ok m"
  shows "mem_ok (m\<lparr>rsas := (rsas m)(brk m \<mapsto> (\<lambda>f. None)), brk := Suc (brk m)\<rparr>)"
  using assms unfolding mem_ok_def
  by (simp add: less_SucI ptr_below_Suc) (simp add: ptr_below_def)

lemma mem_ok_alloc_key:
  assumes "mem_ok m" and "ptr_below (Suc (brk m)) (key_dsa ks)" and "ptr_below (Suc (brk m)) (key_rsa ks)"
  shows "mem_ok (m\<lparr>keys := (keys m)(brk m \<mapsto> ks), brk := Suc (brk m)\<rparr>)"
  using assms unfolding mem_ok_def
  by (simp add: less_SucI ptr_below_Suc)

lemma mem_ok_set_dsa:
  assumes "mem_ok m" and "dsas m nd = Some nds" and "ptr_below (brk m) a"
  shows "mem_ok (m\<lparr>dsas := (dsas m)(nd \<mapsto> nds(f := a))\<rparr>)"
  using assms unfolding mem_ok_def
  by simp

lemma mem_ok_set_rsa:
  assumes "mem_ok m" and "rsas m nr = Some nrs" and "ptr_below (brk m) a"
  shows "mem_ok (m\<lparr>rsas := (rsas m)(nr \<mapsto> nrs(f := a))\<rparr>)"
  using assms unfolding mem_ok_def
  by simp

lemma mem_ok_set_key:
  assumes "mem_ok m" and "keys m k = Some ks"
    and "ptr_below (brk m) (key_dsa ks')" and "ptr_below (brk m) (key_rsa ks')"
  shows "mem_ok (m\<lparr>keys := (keys m)(k \<mapsto> ks')\<rparr>)"
  using assms unfolding mem_ok_def
  by simp

text \<open>Allocation of a BIGNUM.\<close>

lemma BN_new_val_Some:
  assumes "BN_new_val m v = (Some a, m1)"
  shows "a = brk m \<and> m1 = m\<lparr>plan := tl (plan m), bns := (bns m)(brk m \<mapsto> v), brk := Suc (brk m)\<rparr>"
  using assms
  by (auto simp: BN_new_val_def attempt_def split: list.splits bool.splits)

lemma BN_dup_Some:
  assumes "BN_dup m src = Some (Some a, m1)"
  shows "\<exists>x v. src = Some x \<and> bns m x = Some v \<and> a = brk m \<and>
           m1 = m\<lparr>plan := tl (plan m), bns := (bns m)(brk m \<mapsto> v), brk := Suc (brk m)\<rparr>"
  using assms
  by (auto simp: BN_dup_def split: option.splits dest!: BN_new_val_Some)

lemma dup_dsa_field_True:
  assumes "dup_dsa_field f key new m = Some (True, m')"
  shows "\<exists>ks sp st x v kn np nst.
           keys m key = Some ks \<and> key_dsa ks = Some sp \<and> dsas m sp = Some st \<and> st f = Some x \<and>
           bns m x = Some v \<and> keys m new = Some kn \<and> key_dsa kn = Some np \<and>
           dsas m np = Some nst \<and>
           m' = m\<lparr>plan := tl (plan m), bns := (bns m)(brk m \<mapsto> v), brk := Suc (brk m),
                  dsas := (dsas m)(np \<mapsto> nst(f := Some (brk m)))\<rparr>"
proof -
  from assms obtain src a m1 where g: "get_dsa_field m key f = Some src"
    and b: "BN_dup m src = Some (Some a, m1)" and s: "set_dsa_field m1 new f (Some a) = Some m'"
    by (auto simp: dup_dsa_field_def split: option.splits)
  from BN_dup_Some [OF b] obtain x v where
    x: "src = Some x" "bns m x = Some v" "a = brk m"
      "m1 = m\<lparr>plan := tl (plan m), bns := (bns m)(brk m \<mapsto> v), brk := Suc (brk m)\<rparr>"
    by blast
  from g x(1) obtain ks sp st where
    k: "keys m key = Some ks" "key_dsa ks = Some sp" "dsas m sp = Some st" "st f = Some x"
    by (auto simp: get_dsa_field_def split: option.splits)
  from s x(3,4) obtain kn np nst where
    n: "keys m new = Some kn" "key_dsa kn = Some np" "dsas m np = Some nst"
      "m' = m1\<lparr>dsas := (dsas m1)(np \<mapsto> nst(f := Some (brk m)))\<rparr>"
    by (auto simp: set_dsa_field_def split: option.splits)
  from k n x show ?thesis by simp
qed

lemma dup_dsa_field_effect:
  assumes step: "dup_dsa_field f key new m = Some (True, m')" and ok: "mem_ok m"
    and k: "keys m key = Some ks" "key_dsa ks = Some sp"
    and n: "keys m new = Some kn" "key_dsa kn = Some np"
  shows "mem_ok m' \<and> keys m' = keys m \<and> rsas m' = rsas m \<and> rsa_vals m' = rsa_vals m \<and>
         dom (dsas m') = dom (dsas m) \<and> dsa_vals m sp f \<noteq> None \<and>
         dsa_vals m' = (dsa_vals m)(np := (dsa_vals m np)(f := dsa_vals m sp f))"
proof -
  from dup_dsa_field_True [OF step] k n obtain st x v nst where
    f: "dsas m sp = Some st" "st f = Some x" "bns m x = Some v" "dsas m np = Some nst"
    and m': "m' = m\<lparr>plan := tl (plan m), bns := (bns m)(brk m \<mapsto> v), brk := Suc (brk m),
                  dsas := (dsas m)(np \<mapsto> nst(f := Some (brk m)))\<rparr>"
    by auto
  let ?m1 = "m\<lparr>plan := tl (plan m)\<rparr>\<lparr>bns := (bns m)(brk m \<mapsto> v), brk := Suc (brk m)\<rparr>"
  have "mem_ok ?m1"
    using mem_ok_alloc_bn [of "m\<lparr>plan := tl (plan m)\<rparr>" v] ok by (simp add: mem_ok_plan)
  from mem_ok_set_dsa [OF this, of np nst "Some (brk m)" f] f
  have 1: "mem_ok m'" by (simp add: m' ptr_below_def)
  have 2: "keys m' = keys m" "rsas m' = rsas m" by (simp_all add: m')
  have 3: "dom (dsas m') = dom (dsas m)" using f by (auto simp: m')
  have below_d: "ptr_below (brk m) (ds' g)" if "dsas m a = Some ds'" for a ds' g
    using mem_okD(2) [OF ok that] by simp
  have below_r: "ptr_below (brk m) (rs' g)" if "rsas m a = Some rs'" for a rs' g
    using mem_okD(3) [OF ok that] by simp
  have 4: "rsa_vals m' = rsa_vals m"
    by (rule ext, rule ext)
      (auto simp: rsa_vals_def m' bn_val_below [of _ m "brk m" v] below_d below_r
         split: option.splits)
  have v: "dsa_vals m sp f = Some v" using f by (simp add: dsa_vals_def bn_val_def)
  have "dsa_vals m' a g = ((dsa_vals m)(np := (dsa_vals m np)(f := dsa_vals m sp f))) a g" for a g
    using f v
    by (auto simp: dsa_vals_def m' bn_val_below [of _ m "brk m" v] below_d below_r
          split: option.splits)
      (simp_all add: bn_val_def)
  then have "dsa_vals m' = (dsa_vals m)(np := (dsa_vals m np)(f := dsa_vals m sp f))"
    by (intro ext)
  with 1 2 3 4 v show ?thesis by simp
qed

lemma dup_DSA_new_effect:
  assumes step: "dup_DSA_new new m = Some (True, m')" and ok: "mem_ok m"
    and n: "keys m new = Some kn"
  shows "mem_ok m' \<and> keys m' = (keys m)(new \<mapsto> kn\<lparr>key_dsa := Some (brk m)\<rparr>) \<and>
         rsas m' = rsas m \<and> rsa_vals m' = rsa_vals m \<and>
         dom (dsas m') = insert (brk m) (dom (dsas m)) \<and> dsas m (brk m) = None \<and>
         dsa_vals m' = (dsa_vals m)(brk m := (\<lambda>f. None))"
proof -
  from step n have m': "m' = m\<lparr>plan := tl (plan m),
        dsas := (dsas m)(brk m \<mapsto> (\<lambda>f. None)), brk := Suc (brk m),
        keys := (keys m)(new \<mapsto> kn\<lparr>key_dsa := Some (brk m)\<rparr>)\<rparr>"
    by (auto simp: dup_DSA_new_def DSA_new_def attempt_def split: list.splits bool.splits)
  let ?m1 = "m\<lparr>plan := tl (plan m)\<rparr>\<lparr>dsas := (dsas m)(brk m \<mapsto> (\<lambda>f. None)), brk := Suc (brk m)\<rparr>"
  have ok1: "mem_ok ?m1"
    using mem_ok_alloc_dsa [of "m\<lparr>plan := tl (plan m)\<rparr>"] ok by (simp add: mem_ok_plan)
  have kb: "ptr_below (brk m) (key_dsa kn)" "ptr_below (brk m) (key_rsa kn)"
    using mem_okD(4) [OF ok n] by simp_all
  from mem_ok_set_key [OF ok1, of new kn "kn\<lparr>key_dsa := Some (brk m)\<rparr>"] n kb
  have 1: "mem_ok m'" by (simp add: m' ptr_below_def split: option.splits)
  have 2: "keys m' = (keys m)(new \<mapsto> kn\<lparr>key_dsa := Some (brk m)\<rparr>)" "rsas m' = rsas m"
    by (simp_all add: m')
  have 3: "dom (dsas m') = insert (brk m) (dom (dsas m))" by (auto simp: m')
  have 4: "rsa_vals m' = rsa_vals m"
    by (rule ext, rule ext) (simp add: rsa_vals_def m' bn_val_def split: option.splits)
  have 5: "dsas m (brk m) = None" using mem_ok_fresh [OF ok] by simp
  have "dsa_vals m' a g = ((dsa_vals m)(brk m := (\<lambda>f. None))) a g" for a g
    by (simp add: dsa_vals_def m' bn_val_def split: option.splits)
  then have "dsa_vals m' = (dsa_vals m)(brk m := (\<lambda>f. None))"
    by (intro ext)
  with 1 2 3 4 5 show ?thesis by simp
qed

lemma dup_rsa_field_True:
  assumes "dup_rsa_field f key new m = Some (True, m')"
  shows "\<exists>ks sp st x v kn np nst.
           keys m key = Some ks \<and> key_rsa ks = Some sp \<and> rsas m sp = Some st \<and> st f = Some x \<and>
           bns m x = Some v \<and> keys m new = Some kn \<and> key_rsa kn = Some np \<and>
           rsas m np = Some nst \<and>
           m' = m\<lparr>plan := tl (plan m), bns := (bns m)(brk m \<mapsto> v), brk := Suc (brk m),
                  rsas := (rsas m)(np \<mapsto> nst(f := Some (brk m)))\<rparr>"
proof -
  from assms obtain src a m1 where g: "get_rsa_field m key f = Some src"
    and b: "BN_dup m src = Some (Some a, m1)" and s: "set_rsa_field m1 new f (Some a) = Some m'"
    by (auto simp: dup_rsa_field_def split: option.splits)
  from BN_dup_Some [OF b] obtain x v where
    x: "src = Some x" "bns m x = Some v" "a = brk m"
      "m1 = m\<lparr>plan := tl (plan m), bns := (bns m)(brk m \<mapsto> v), brk := Suc (brk m)\<rparr>"
    by blast
  from g x(1) obtain ks sp st where
    k: "keys m key = Some ks" "key_rsa ks = Some sp" "rsas m sp = Some st" "st f = Some x"
    by (auto simp: get_rsa_field_def split: option.splits)
  from s x(3,4) obtain kn np nst where
    n: "keys m new = Some kn" "key_rsa kn = Some np" "rsas m np = Some nst"
      "m' = m1\<lparr>rsas := (rsas m1)(np \<mapsto> nst(f := Some (brk m)))\<rparr>"
    by (auto simp: set_rsa_field_def split: option.splits)
  from k n x show ?thesis by simp
qed

lemma dup_rsa_field_effect:
  assumes step: "dup_rsa_field f key new m = Some (True, m')" and ok: "mem_ok m"
    and k: "keys m key = Some ks" "key_rsa ks = Some sp"
    and n: "keys m new = Some kn" "key_rsa kn = Some np"
  shows "mem_ok m' \<and> keys m' = keys m \<and> dsas m' = dsas m \<and> dsa_vals m' = dsa_vals m \<and>
         dom (rsas m') = dom (rsas m) \<and> rsa_vals m sp f \<noteq> None \<and>
         rsa_vals m' = (rsa_vals m)(np := (rsa_vals m np)(f := rsa_vals m sp f))"
proof -
  from dup_rsa_field_True [OF step] k n obtain st x v nst where
    f: "rsas m sp = Some st" "st f = Some x" "bns m x = Some v" "rsas m np = Some nst"
    and m': "m' = m\<lparr>plan := tl (plan m), bns := (bns m)(brk m \<mapsto> v), brk := Suc (brk m),
                  rsas := (rsas m)(np \<mapsto> nst(f := Some (brk m)))\<rparr>"
    by auto
  let ?m1 = "m\<lparr>plan := tl (plan m)\<rparr>\<lparr>bns := (bns m)(brk m \<mapsto> v), brk := Suc (brk m)\<rparr>"
  have "mem_ok ?m1"
    using mem_ok_alloc_bn [of "m\<lparr>plan := tl (plan m)\<rparr>" v] ok by (simp add: mem_ok_plan)
  from mem_ok_set_rsa [OF this, of np nst "Some (brk m)" f] f
  have 1: "mem_ok m'" by (simp add: m' ptr_below_def)
  have 2: "keys m' = keys m" "dsas m' = dsas m" by (simp_all add: m')
  have 3: "dom (rsas m') = dom (rsas m)" using f by (auto simp: m')
  have below_d: "ptr_below (brk m) (ds' g)" if "dsas m a = Some ds'" for a ds' g
    using mem_okD(2) [OF ok that] by simp
  have below_r: "ptr_below (brk m) (rs' g)" if "rsas m a = Some rs'" for a rs' g
    using mem_okD(3) [OF ok that] by simp
  have 4: "dsa_vals m' = dsa_vals m"
    by (rule ext, rule ext)
      (auto simp: dsa_vals_def m' bn_val_below [of _ m "brk m" v] below_d below_r
         split: option.splits)
  have v: "rsa_vals m sp f = Some v" using f by (simp add: rsa_vals_def bn_val_def)
  have "rsa_vals m' a g = ((rsa_vals m)(np := (rsa_vals m np)(f := rsa_vals m sp f))) a g" for a g
    using f v
    by (auto simp: rsa_vals_def m' bn_val_below [of _ m "brk m" v] below_d below_r
          split: option.splits)
      (simp_all add: bn_val_def)
  then have "rsa_vals m' = (rsa_vals m)(np := (rsa_vals m np)(f := rsa_vals m sp f))"
    by (intro ext)
  with 1 2 3 4 v show ?thesis by simp
qed

lemma dup_RSA_new_effect:
  assumes step: "dup_RSA_new new m = Some (True, m')" and ok: "mem_ok m"
    and n: "keys m new = Some kn"
  shows "mem_ok m' \<and> keys m' = (keys m)(new \<mapsto> kn\<lparr>key_rsa := Some (brk m)\<rparr>) \<and>
         dsas m' = dsas m \<and> dsa_vals m' = dsa_vals m \<and>
         dom (rsas m') = insert (brk m) (dom (rsas m)) \<and> rsas m (brk m) = None \<and>
         rsa_vals m' = (rsa_vals m)(brk m := (\<lambda>f. None))"
proof -
  from step n have m': "m' = m\<lparr>plan := tl (plan m),
        rsas := (rsas m)(brk m \<mapsto> (\<lambda>f. None)), brk := Suc (brk m),
        keys := (keys m)(new \<mapsto> kn\<lparr>key_rsa := Some (brk m)\<rparr>)\<rparr>"
    by (auto simp: dup_RSA_new_def RSA_new_def attempt_def split: list.splits bool.splits)
  let ?m1 = "m\<lparr>plan := tl (plan m)\<rparr>\<lparr>rsas := (rsas m)(brk m \<mapsto> (\<lambda>f. None)), brk := Suc (brk m)\<rparr>"
  have ok1: "mem_ok ?m1"
    using mem_ok_alloc_rsa [of "m\<lparr>plan := tl (plan m)\<rparr>"] ok by (simp add: mem_ok_plan)
  have kb: "ptr_below (brk m) (key_dsa kn)" "ptr_below (brk m) (key_rsa kn)"
    using mem_okD(4) [OF ok n] by simp_all
  from mem_ok_set_key [OF ok1, of new kn "kn\<lparr>key_rsa := Some (brk m)\<rparr>"] n kb
  have 1: "mem_ok m'" by (simp add: m' ptr_below_def split: option.splits)
  have 2: "keys m' = (keys m)(new \<mapsto> kn\<lparr>key_rsa := Some (brk m)\<rparr>)" "dsas m' = dsas m"
    by (simp_all add: m')
  have 3: "dom (rsas m') = insert (brk m) (dom (rsas m))" by (auto simp: m')
  have 4: "dsa_vals m' = dsa_vals m"
    by (rule ext, rule ext) (simp add: dsa_vals_def m' bn_val_def split: option.splits)
  have 5: "rsas m (brk m) = None" using mem_ok_fresh [OF ok] by simp
  have "rsa_vals m' a g = ((rsa_vals m)(brk m := (\<lambda>f. None))) a g" for a g
    by (simp add: rsa_vals_def m' bn_val_def split: option.splits)
  then have "rsa_vals m' = (rsa_vals m)(brk m := (\<lambda>f. None))"
    by (intro ext)
  with 1 2 3 4 5 show ?thesis by simp
qed

lemma run_steps_Cons_True:
  "run_steps (f # fs) m = Some (True, m') \<longleftrightarrow>
     (\<exists>m1. f m = Some (True, m1) \<and> run_steps fs m1 = Some (True, m'))"
  by (auto split: option.splits bool.splits)

lemma run_steps_Nil_True: "run_steps [] m = Some (True, m') \<longleftrightarrow> m' = m"
  by auto

lemma if_private_True:
  assumes "if_private demote key body m = Some (True, m')" and "keys m key = Some ks"
  shows "if private_kept demote (key_flags ks) then run_steps body m = Some (True, m') else m' = m"
  using assms by (auto simp: if_private_def private_kept_def split: if_splits)

lemma dsa_progress_step:
  assumes p: "dsa_progress m0 K np m V" and step: "dup_dsa_field f key new m = Some (True, m')"
    and k: "K key = Some ks" "key_dsa ks = Some sp"
    and n: "K new = Some kn" "key_dsa kn = Some np" and ne: "sp \<noteq> np"
  shows "dsa_progress m0 K np m' (V(f := dsa_vals m0 sp f))"
proof -
  from p have ok: "mem_ok m" and ks: "keys m = K" and o: "rsas m = rsas m0" "rsa_vals m = rsa_vals m0"
    and d: "dom (dsas m) = insert np (dom (dsas m0))" and v: "dsa_vals m = (dsa_vals m0)(np := V)"
    by (simp_all add: dsa_progress_def)
  from k n ks have k': "keys m key = Some ks" and n': "keys m new = Some kn" by simp_all
  from dup_dsa_field_effect [OF step ok k' k(2) n' n(2)]
  have e: "mem_ok m'" "keys m' = keys m" "rsas m' = rsas m" "rsa_vals m' = rsa_vals m"
    "dom (dsas m') = dom (dsas m)" "dsa_vals m sp f \<noteq> None"
    "dsa_vals m' = (dsa_vals m)(np := (dsa_vals m np)(f := dsa_vals m sp f))"
    by simp_all
  from v ne have s: "dsa_vals m sp = dsa_vals m0 sp" and t: "dsa_vals m np = V" by simp_all
  from e(7) v s t have "dsa_vals m' = (dsa_vals m0)(np := V(f := dsa_vals m0 sp f))" by simp
  with e ks o d s show ?thesis by (simp add: dsa_progress_def)
qed

lemma rsa_progress_step:
  assumes p: "rsa_progress m0 K np m V" and step: "dup_rsa_field f key new m = Some (True, m')"
    and k: "K key = Some ks" "key_rsa ks = Some sp"
    and n: "K new = Some kn" "key_rsa kn = Some np" and ne: "sp \<noteq> np"
  shows "rsa_progress m0 K np m' (V(f := rsa_vals m0 sp f))"
proof -
  from p have ok: "mem_ok m" and ks: "keys m = K" and o: "dsas m = dsas m0" "dsa_vals m = dsa_vals m0"
    and d: "dom (rsas m) = insert np (dom (rsas m0))" and v: "rsa_vals m = (rsa_vals m0)(np := V)"
    by (simp_all add: rsa_progress_def)
  from k n ks have k': "keys m key = Some ks" and n': "keys m new = Some kn" by simp_all
  from dup_rsa_field_effect [OF step ok k' k(2) n' n(2)]
  have e: "mem_ok m'" "keys m' = keys m" "dsas m' = dsas m" "dsa_vals m' = dsa_vals m"
    "dom (rsas m') = dom (rsas m)" "rsa_vals m sp f \<noteq> None"
    "rsa_vals m' = (rsa_vals m)(np := (rsa_vals m np)(f := rsa_vals m sp f))"
    by simp_all
  from v ne have s: "rsa_vals m sp = rsa_vals m0 sp" and t: "rsa_vals m np = V" by simp_all
  from e(7) v s t have "rsa_vals m' = (rsa_vals m0)(np := V(f := rsa_vals m0 sp f))" by simp
  with e ks o d s show ?thesis by (simp add: rsa_progress_def)
qed

lemma rsa_progress_opt:
  assumes p: "rsa_progress m0 K np m V" and step: "dup_rsa_field_opt f key new m = Some (True, m')"
    and k: "K key = Some ks" "key_rsa ks = Some sp"
    and n: "K new = Some kn" "key_rsa kn = Some np" and ne: "sp \<noteq> np" and vf: "V f = None"
  shows "rsa_progress m0 K np m' (V(f := rsa_vals m0 sp f))"
proof -
  from step obtain src where g: "get_rsa_field m key f = Some src"
    and c: "if src \<noteq> None then dup_rsa_field f key new m = Some (True, m') else m' = m"
    by (auto simp: dup_rsa_field_opt_def split: option.splits if_splits)
  show ?thesis
  proof (cases src)
    case (Some x)
    with c have "dup_rsa_field f key new m = Some (True, m')" by simp
    from rsa_progress_step [OF p this k n ne] show ?thesis .
  next
    case None
    with c have m': "m' = m" by simp
    from p have ks: "keys m = K" and v: "rsa_vals m = (rsa_vals m0)(np := V)"
      by (simp_all add: rsa_progress_def)
    from g None k ks have "rsa_vals m sp f = None"
      by (auto simp: get_rsa_field_def rsa_vals_def bn_val_def split: option.splits)
    with v ne have "rsa_vals m0 sp f = None" by simp
    with vf have "V(f := rsa_vals m0 sp f) = V" by (simp add: fun_upd_idem_iff)
    with p m' show ?thesis by simp
  qed
qed

lemma dup_dss_body_effect:
  assumes run: "run_steps (dup_dss_body demote key new) m = Some (True, m')" and ok: "mem_ok m"
    and k: "keys m key = Some ks" and n: "keys m new = Some kn" and ne: "key \<noteq> new"
  shows "\<exists>sp. key_dsa ks = Some sp \<and> dsas m sp \<noteq> None \<and>
           dsa_progress m ((keys m)(new \<mapsto> kn\<lparr>key_dsa := Some (brk m)\<rparr>)) (brk m) m'
             (dsa_copy (private_kept demote (key_flags ks)) (dsa_vals m sp))"
proof -
  let ?K = "(keys m)(new \<mapsto> kn\<lparr>key_dsa := Some (brk m)\<rparr>)"
  let ?np = "brk m"
  from run obtain m1 m2 m3 m4 m5 where
    s1: "dup_DSA_new new m = Some (True, m1)"
    and s2: "dup_dsa_field DSA_p key new m1 = Some (True, m2)"
    and s3: "dup_dsa_field DSA_q key new m2 = Some (True, m3)"
    and s4: "dup_dsa_field DSA_g key new m3 = Some (True, m4)"
    and s5: "dup_dsa_field DSA_pub_key key new m4 = Some (True, m5)"
    and s6: "if_private demote key [dup_dsa_field DSA_priv_key key new] m5 = Some (True, m')"
    unfolding dup_dss_body_def run_steps_Cons_True run_steps_Nil_True by blast
  from dup_DSA_new_effect [OF s1 ok n]
  have p1: "dsa_progress m ?K ?np m1 (\<lambda>f. None)" and k1: "keys m1 = ?K"
    by (simp_all add: dsa_progress_def)
  from k ne have Kk: "?K key = Some ks" by simp
  have Kn: "?K new = Some (kn\<lparr>key_dsa := Some ?np\<rparr>)" "key_dsa (kn\<lparr>key_dsa := Some ?np\<rparr>) = Some ?np"
    by simp_all
  from dup_dsa_field_True [OF s2] k1 Kk obtain sp st where sp: "key_dsa ks = Some sp"
    and st1: "dsas m1 sp = Some st"
    by auto
  from mem_okD(4) [OF ok k] sp have sne: "sp \<noteq> ?np" by (auto simp: ptr_below_def)
  from p1 have "dom (dsas m1) = insert ?np (dom (dsas m))" by (simp add: dsa_progress_def)
  with st1 sne have sv: "dsas m sp \<noteq> None" by auto
  note st = dsa_progress_step [OF _ _ Kk sp Kn sne]
  have p2: "dsa_progress m ?K ?np m2 ((\<lambda>f. None)(DSA_p := dsa_vals m sp DSA_p))"
    by (rule st [OF p1 s2])
  have p3: "dsa_progress m ?K ?np m3
      ((\<lambda>f. None)(DSA_p := dsa_vals m sp DSA_p, DSA_q := dsa_vals m sp DSA_q))"
    by (rule st [OF p2 s3])
  have p4: "dsa_progress m ?K ?np m4
      ((\<lambda>f. None)(DSA_p := dsa_vals m sp DSA_p, DSA_q := dsa_vals m sp DSA_q,
         DSA_g := dsa_vals m sp DSA_g))"
    by (rule st [OF p3 s4])
  have p5: "dsa_progress m ?K ?np m5
      ((\<lambda>f. None)(DSA_p := dsa_vals m sp DSA_p, DSA_q := dsa_vals m sp DSA_q,
         DSA_g := dsa_vals m sp DSA_g, DSA_pub_key := dsa_vals m sp DSA_pub_key))"
    by (rule st [OF p4 s5])
  from p5 Kk have k5: "keys m5 key = Some ks" by (simp add: dsa_progress_def)
  show ?thesis
  proof (cases "private_kept demote (key_flags ks)")
    case True
    with if_private_True [OF s6 k5]
    have t0: "dup_dsa_field DSA_priv_key key new m5 = Some (True, m')"
      by (simp add: run_steps_Cons_True run_steps_Nil_True del: run_steps.simps)
    have "dsa_progress m ?K ?np m'
      ((\<lambda>f. None)(DSA_p := dsa_vals m sp DSA_p, DSA_q := dsa_vals m sp DSA_q,
         DSA_g := dsa_vals m sp DSA_g, DSA_pub_key := dsa_vals m sp DSA_pub_key,
         DSA_priv_key := dsa_vals m sp DSA_priv_key))"
      by (rule st [OF p5 t0])
    moreover have "(\<lambda>f. None)(DSA_p := dsa_vals m sp DSA_p, DSA_q := dsa_vals m sp DSA_q,
         DSA_g := dsa_vals m sp DSA_g, DSA_pub_key := dsa_vals m sp DSA_pub_key,
         DSA_priv_key := dsa_vals m sp DSA_priv_key) = dsa_copy True (dsa_vals m sp)"
        (is "?l = ?r")
    proof (rule ext)
      fix f
      show "?l f = ?r f" by (cases f) (simp_all add: dsa_copy_def)
    qed
    ultimately show ?thesis using sp sv True by simp
  next
    case False
    with if_private_True [OF s6 k5] have "m' = m5" by simp
    moreover have "(\<lambda>f. None)(DSA_p := dsa_vals m sp DSA_p, DSA_q := dsa_vals m sp DSA_q,
         DSA_g := dsa_vals m sp DSA_g, DSA_pub_key := dsa_vals m sp DSA_pub_key)
         = dsa_copy False (dsa_vals m sp)"
        (is "?l = ?r")
    proof (rule ext)
      fix f
      show "?l f = ?r f" by (cases f) (simp_all add: dsa_copy_def)
    qed
    ultimately show ?thesis using sp sv False p5 by simp
  qed
qed

lemma dup_rsa_body_effect:
  assumes run: "run_steps (dup_rsa_body demote key new) m = Some (True, m')" and ok: "mem_ok m"
    and k: "keys m key = Some ks" and n: "keys m new = Some kn" and ne: "key \<noteq> new"
  shows "\<exists>sp. key_rsa ks = Some sp \<and> rsas m sp \<noteq> None \<and>
           rsa_progress m ((keys m)(new \<mapsto> kn\<lparr>key_rsa := Some (brk m)\<rparr>)) (brk m) m'
             (rsa_copy (private_kept demote (key_flags ks)) (rsa_vals m sp))"
proof -
  let ?K = "(keys m)(new \<mapsto> kn\<lparr>key_rsa := Some (brk m)\<rparr>)"
  let ?np = "brk m"
  from run obtain m1 m2 m3 where
    s1: "dup_RSA_new new m = Some (True, m1)"
    and s2: "dup_rsa_field RSA_n key new m1 = Some (True, m2)"
    and s3: "dup_rsa_field RSA_e key new m2 = Some (True, m3)"
    and s4: "if_private demote key
        [dup_rsa_field RSA_d key new,
         dup_rsa_field_opt RSA_p key new,
         dup_rsa_field_opt RSA_q key new,
         dup_rsa_field_opt RSA_dmp1 key new,
         dup_rsa_field_opt RSA_dmq1 key new,
         dup_rsa_field_opt RSA_iqmp key new] m3 = Some (True, m')"
    unfolding dup_rsa_body_def run_steps_Cons_True run_steps_Nil_True by blast
  from dup_RSA_new_effect [OF s1 ok n]
  have p1: "rsa_progress m ?K ?np m1 (\<lambda>f. None)" and k1: "keys m1 = ?K"
    by (simp_all add: rsa_progress_def)
  from k ne have Kk: "?K key = Some ks" by simp
  have Kn: "?K new = Some (kn\<lparr>key_rsa := Some ?np\<rparr>)" "key_rsa (kn\<lparr>key_rsa := Some ?np\<rparr>) = Some ?np"
    by simp_all
  from dup_rsa_field_True [OF s2] k1 Kk obtain sp st where sp: "key_rsa ks = Some sp"
    and st1: "rsas m1 sp = Some st"
    by auto
  from mem_okD(4) [OF ok k] sp have sne: "sp \<noteq> ?np" by (auto simp: ptr_below_def)
  from p1 have "dom (rsas m1) = insert ?np (dom (rsas m))" by (simp add: rsa_progress_def)
  with st1 sne have sv: "rsas m sp \<noteq> None" by auto
  note st = rsa_progress_step [OF _ _ Kk sp Kn sne]
  note so = rsa_progress_opt [OF _ _ Kk sp Kn sne]
  let ?S = "rsa_vals m sp"
  have p2: "rsa_progress m ?K ?np m2 ((\<lambda>f. None)(RSA_n := ?S RSA_n))"
    by (rule st [OF p1 s2])
  have p3: "rsa_progress m ?K ?np m3
      ((\<lambda>f. None)(RSA_n := ?S RSA_n, RSA_e := ?S RSA_e))"
    by (rule st [OF p2 s3])
  from p3 Kk have k3: "keys m3 key = Some ks" by (simp add: rsa_progress_def)
  show ?thesis
  proof (cases "private_kept demote (key_flags ks)")
    case True
    with if_private_True [OF s4 k3] obtain m4 m5 m6 m7 m8 where
      t1: "dup_rsa_field RSA_d key new m3 = Some (True, m4)"
      and t2: "dup_rsa_field_opt RSA_p key new m4 = Some (True, m5)"
      and t3: "dup_rsa_field_opt RSA_q key new m5 = Some (True, m6)"
      and t4: "dup_rsa_field_opt RSA_dmp1 key new m6 = Some (True, m7)"
      and t5: "dup_rsa_field_opt RSA_dmq1 key new m7 = Some (True, m8)"
      and t6: "dup_rsa_field_opt RSA_iqmp key new m8 = Some (True, m')"
      by (auto simp: run_steps_Cons_True run_steps_Nil_True simp del: run_steps.simps)
    have p4: "rsa_progress m ?K ?np m4
      ((\<lambda>f. None)(RSA_n := ?S RSA_n, RSA_e := ?S RSA_e, RSA_d := ?S RSA_d))"
      by (rule st [OF p3 t1])
    have p5: "rsa_progress m ?K ?np m5
      ((\<lambda>f. None)(RSA_n := ?S RSA_n, RSA_e := ?S RSA_e, RSA_d := ?S RSA_d, RSA_p := ?S RSA_p))"
      by (rule so [OF p4 t2]) simp
    have p6: "rsa_progress m ?K ?np m6
      ((\<lambda>f. None)(RSA_n := ?S RSA_n, RSA_e := ?S RSA_e, RSA_d := ?S RSA_d, RSA_p := ?S RSA_p,
         RSA_q := ?S RSA_q))"
      by (rule so [OF p5 t3]) simp
    have p7: "rsa_progress m ?K ?np m7
      ((\<lambda>f. None)(RSA_n := ?S RSA_n, RSA_e := ?S RSA_e, RSA_d := ?S RSA_d, RSA_p := ?S RSA_p,
         RSA_q := ?S RSA_q, RSA_dmp1 := ?S RSA_dmp1))"
      by (rule so [OF p6 t4]) simp
    have p8: "rsa_progress m ?K ?np m8
      ((\<lambda>f. None)(RSA_n := ?S RSA_n, RSA_e := ?S RSA_e, RSA_d := ?S RSA_d, RSA_p := ?S RSA_p,
         RSA_q := ?S RSA_q, RSA_dmp1 := ?S RSA_dmp1, RSA_dmq1 := ?S RSA_dmq1))"
      by (rule so [OF p7 t5]) simp
    have p9: "rsa_progress m ?K ?np m'
      ((\<lambda>f. None)(RSA_n := ?S RSA_n, RSA_e := ?S RSA_e, RSA_d := ?S RSA_d, RSA_p := ?S RSA_p,
         RSA_q := ?S RSA_q, RSA_dmp1 := ?S RSA_dmp1, RSA_dmq1 := ?S RSA_dmq1,
         RSA_iqmp := ?S RSA_iqmp))"
      by (rule so [OF p8 t6]) simp
    moreover have "(\<lambda>f. None)(RSA_n := ?S RSA_n, RSA_e := ?S RSA_e, RSA_d := ?S RSA_d,
         RSA_p := ?S RSA_p, RSA_q := ?S RSA_q, RSA_dmp1 := ?S RSA_dmp1, RSA_dmq1 := ?S RSA_dmq1,
         RSA_iqmp := ?S RSA_iqmp) = rsa_copy True ?S"
        (is "?l = ?r")
    proof (rule ext)
      fix f
      show "?l f = ?r f" by (cases f) (simp_all add: rsa_copy_def)
    qed
    ultimately show ?thesis using sp sv True by simp
  next
    case False
    with if_private_True [OF s4 k3] have "m' = m3" by simp
    moreover have "(\<lambda>f. None)(RSA_n := ?S RSA_n, RSA_e := ?S RSA_e) = rsa_copy False ?S"
        (is "?l = ?r")
    proof (rule ext)
      fix f
      show "?l f = ?r f" by (cases f) (simp_all add: rsa_copy_def)
    qed
    ultimately show ?thesis using sp sv False p3 by simp
  qed
qed

lemma dsa_view_vals:
  "dsa_view m a =
     (case a of None \<Rightarrow> None
      | Some x \<Rightarrow> if dsas m x = None then None else Some (dsa_vals m x))"
  by (auto simp: dsa_view_def dsa_vals_def fun_eq_iff split: option.splits)

lemma rsa_view_vals:
  "rsa_view m a =
     (case a of None \<Rightarrow> None
      | Some x \<Rightarrow> if rsas m x = None then None else Some (rsa_vals m x))"
  by (auto simp: rsa_view_def rsa_vals_def fun_eq_iff split: option.splits)

lemma dsa_vals_cong: "bns m' = bns m \<Longrightarrow> dsas m' = dsas m \<Longrightarrow> dsa_vals m' = dsa_vals m"
  by (intro ext) (simp add: dsa_vals_def bn_val_def split: option.splits)

lemma rsa_vals_cong: "bns m' = bns m \<Longrightarrow> rsas m' = rsas m \<Longrightarrow> rsa_vals m' = rsa_vals m"
  by (intro ext) (simp add: rsa_vals_def bn_val_def split: option.splits)

lemma pki_key_dup_Some:
  assumes res: "pki_key_dup m key demote = Some (Some new, m')" and ok: "mem_ok m"
    and k: "keys m key = Some ks"
  shows "\<exists>m2 kn. new = brk m \<and> key \<noteq> new \<and> mem_ok m2 \<and> brk m2 = Suc (brk m) \<and>
           bns m2 = bns m \<and> dsas m2 = dsas m \<and> rsas m2 = rsas m \<and>
           kn = \<lparr>key_type = key_type ks, key_flags = key_flags ks, key_type_c = key_type_c ks,
                 key_dsa = None, key_rsa = None\<rparr> \<and>
           keys m2 = (keys m)(new \<mapsto> kn) \<and>
           dup_switch demote key new (key_type ks) m2 = Some (True, m')"
proof -
  let ?z = "\<lparr>key_type = SSH_KEYTYPE_UNKNOWN, key_flags = SSH_KEY_FLAG_EMPTY,
              key_type_c = None, key_dsa = None, key_rsa = None\<rparr>"
  let ?kn = "\<lparr>key_type = key_type ks, key_flags = key_flags ks, key_type_c = key_type_c ks,
                 key_dsa = None, key_rsa = None\<rparr>"
  let ?m0 = "m\<lparr>plan := tl (plan m)\<rparr>"
  let ?m1 = "?m0\<lparr>keys := (keys ?m0)(brk ?m0 \<mapsto> ?z), brk := Suc (brk ?m0)\<rparr>"
  let ?m2 = "?m1\<lparr>keys := (keys ?m1)(brk m \<mapsto> ?kn)\<rparr>"
  from mem_okD(4) [OF ok k] have ne: "key \<noteq> brk m" by auto
  from res have n: "ssh_key_new m = (Some (brk m), ?m1)" and new: "new = brk m"
    by (auto simp: pki_key_dup_def ssh_key_new_def attempt_def
        split: list.splits bool.splits option.splits prod.splits)
  from res n new k ne have sw: "dup_switch demote key new (key_type ks) ?m2 = Some (True, m')"
    by (auto simp: pki_key_dup_def split: option.splits bool.splits)
  have "mem_ok ?m0" using ok by (simp add: mem_ok_plan)
  from mem_ok_alloc_key [OF this, of ?z] have "mem_ok ?m1" by (simp add: ptr_below_def)
  from mem_ok_set_key [OF this, of "brk m" ?z ?kn] have "mem_ok ?m2" by (simp add: ptr_below_def)
  with sw new ne show ?thesis
    by (intro exI [of _ ?m2] exI [of _ ?kn]) simp
qed


lemma pki_key_dup_view_dss:
  assumes res: "pki_key_dup m key demote = Some (Some new, m')" and ok: "mem_ok m"
    and k: "keys m key = Some ks" and t: "key_type ks = SSH_KEYTYPE_DSS"
  shows "key_view m' new = map_option (dup_value demote) (key_view m key) \<and>
         key_view m' key = key_view m key"
proof -
  let ?kn = "\<lparr>key_type = key_type ks, key_flags = key_flags ks, key_type_c = key_type_c ks,
               key_dsa = None, key_rsa = None\<rparr>"
  from pki_key_dup_Some [OF res ok k] obtain m2 where
    new: "new = brk m" and ne: "key \<noteq> new" and ok2: "mem_ok m2" and b2: "brk m2 = Suc (brk m)"
    and h: "bns m2 = bns m" "dsas m2 = dsas m" "rsas m2 = rsas m"
    and k2: "keys m2 = (keys m)(new \<mapsto> ?kn)"
    and sw: "dup_switch demote key new (key_type ks) m2 = Some (True, m')"
    by blast
  from sw t have run: "run_steps (dup_dss_body demote key new) m2 = Some (True, m')"
    by (simp add: dup_switch_def)
  from k2 k ne have kk: "keys m2 key = Some ks" and kn: "keys m2 new = Some ?kn" by simp_all
  let ?np = "brk m2"
  from dup_dss_body_effect [OF run ok2 kk kn ne] obtain sp where
    sp: "key_dsa ks = Some sp" and sv: "dsas m2 sp \<noteq> None"
    and p: "dsa_progress m2 ((keys m2)(new \<mapsto> ?kn\<lparr>key_dsa := Some ?np\<rparr>)) ?np m'
             (dsa_copy (private_kept demote (key_flags ks)) (dsa_vals m2 sp))"
    by blast
  from mem_okD(4) [OF ok2 kk] sp b2 have sne: "sp \<noteq> ?np" by (auto simp: ptr_below_def)
  have v2: "dsa_vals m2 = dsa_vals m" "rsa_vals m2 = rsa_vals m"
    using h dsa_vals_cong [of m2 m] rsa_vals_cong [of m2 m] by simp_all
  from p have k': "keys m' = (keys m2)(new \<mapsto> ?kn\<lparr>key_dsa := Some ?np\<rparr>)"
    and r': "rsas m' = rsas m" "rsa_vals m' = rsa_vals m"
    and d': "dom (dsas m') = insert ?np (dom (dsas m))"
    and dv: "dsa_vals m' = (dsa_vals m)(?np := dsa_copy (private_kept demote (key_flags ks)) (dsa_vals m sp))"
    using h v2 by (simp_all add: dsa_progress_def)
  from d' have inn: "dsas m' ?np \<noteq> None" by blast
  from d' sv h have ins: "dsas m' sp \<noteq> None" "dsas m sp \<noteq> None" by auto
  have rv: "rsa_view m' a = rsa_view m a" for a
    using r' by (simp add: rsa_view_vals split: option.splits)
  have 1: "key_view m' new = map_option (dup_value demote) (key_view m key)"
    using k k' t sp inn ins dv
    by (simp add: key_view_def dup_value_def dsa_view_vals rsa_view_vals)
  have 2: "key_view m' key = key_view m key"
    using k k' kk ne sp ins dv sne rv
    by (simp add: key_view_def dsa_view_vals)
  from 1 2 show ?thesis ..
qed

lemma pki_key_dup_view_rsa:
  assumes res: "pki_key_dup m key demote = Some (Some new, m')" and ok: "mem_ok m"
    and k: "keys m key = Some ks"
    and t: "key_type ks = SSH_KEYTYPE_RSA \<or> key_type ks = SSH_KEYTYPE_RSA1"
  shows "key_view m' new = map_option (dup_value demote) (key_view m key) \<and>
         key_view m' key = key_view m key"
proof -
  let ?kn = "\<lparr>key_type = key_type ks, key_flags = key_flags ks, key_type_c = key_type_c ks,
               key_dsa = None, key_rsa = None\<rparr>"
  from pki_key_dup_Some [OF res ok k] obtain m2 where
    new: "new = brk m" and ne: "key \<noteq> new" and ok2: "mem_ok m2" and b2: "brk m2 = Suc (brk m)"
    and h: "bns m2 = bns m" "dsas m2 = dsas m" "rsas m2 = rsas m"
    and k2: "keys m2 = (keys m)(new \<mapsto> ?kn)"
    and sw: "dup_switch demote key new (key_type ks) m2 = Some (True, m')"
    by blast
  from sw t have run: "run_steps (dup_rsa_body demote key new) m2 = Some (True, m')"
    by (auto simp: dup_switch_def)
  from k2 k ne have kk: "keys m2 key = Some ks" and kn: "keys m2 new = Some ?kn" by simp_all
  let ?np = "brk m2"
  from dup_rsa_body_effect [OF run ok2 kk kn ne] obtain sp where
    sp: "key_rsa ks = Some sp" and sv: "rsas m2 sp \<noteq> None"
    and p: "rsa_progress m2 ((keys m2)(new \<mapsto> ?kn\<lparr>key_rsa := Some ?np\<rparr>)) ?np m'
             (rsa_copy (private_kept demote (key_flags ks)) (rsa_vals m2 sp))"
    by blast
  from mem_okD(4) [OF ok2 kk] sp b2 have sne: "sp \<noteq> ?np" by (auto simp: ptr_below_def)
  have v2: "dsa_vals m2 = dsa_vals m" "rsa_vals m2 = rsa_vals m"
    using h dsa_vals_cong [of m2 m] rsa_vals_cong [of m2 m] by simp_all
  from p have k': "keys m' = (keys m2)(new \<mapsto> ?kn\<lparr>key_rsa := Some ?np\<rparr>)"
    and r': "dsas m' = dsas m" "dsa_vals m' = dsa_vals m"
    and d': "dom (rsas m') = insert ?np (dom (rsas m))"
    and dv: "rsa_vals m' = (rsa_vals m)(?np := rsa_copy (private_kept demote (key_flags ks)) (rsa_vals m sp))"
    using h v2 by (simp_all add: rsa_progress_def)
  from d' have inn: "rsas m' ?np \<noteq> None" by blast
  from d' sv h have ins: "rsas m' sp \<noteq> None" "rsas m sp \<noteq> None" by auto
  have rv: "dsa_view m' a = dsa_view m a" for a
    using r' by (simp add: dsa_view_vals split: option.splits)
  have 1: "key_view m' new = map_option (dup_value demote) (key_view m key)"
    using k k' t sp inn ins dv
    by (auto simp: key_view_def dup_value_def dsa_view_vals rsa_view_vals)
  have 2: "key_view m' key = key_view m key"
    using k k' kk ne sp ins dv sne rv
    by (simp add: key_view_def rsa_view_vals)
  from 1 2 show ?thesis ..
qed

lemma dsa_step_total:
  assumes s: "dsa_stable m0 K sp np m"
    and k: "K key = Some ks" "key_dsa ks = Some sp"
    and n: "K new = Some kn" "key_dsa kn = Some np" and ne: "sp \<noteq> np"
    and f: "dsas m0 sp = Some st" "st f = Some x" "bns m0 x = Some v" "x < brk m0"
  shows "\<exists>m'. dup_dsa_field f key new m = Some (True, m') \<and> dsa_stable m0 K sp np m'"
proof -
  from s have p: "plan m = []" and ks: "keys m = K" and b: "brk m0 \<le> brk m"
    and bn: "\<forall>x<brk m0. bns m x = bns m0 x" and sp: "dsas m sp = dsas m0 sp"
    and np: "dsas m np \<noteq> None"
    by (simp_all add: dsa_stable_def)
  from np obtain nst where nst: "dsas m np = Some nst" by auto
  from bn f have bx: "bns m x = Some v" by simp
  let ?m' = "m\<lparr>bns := (bns m)(brk m \<mapsto> v), brk := Suc (brk m),
               dsas := (dsas m)(np \<mapsto> nst(f := Some (brk m)))\<rparr>"
  have "dup_dsa_field f key new m = Some (True, ?m')"
    using p ks k n f sp nst bx
    by (simp add: dup_dsa_field_def get_dsa_field_def BN_dup_def BN_new_val_def attempt_def
          set_dsa_field_def)
  moreover have "dsa_stable m0 K sp np ?m'"
    using p ks b bn sp ne by (auto simp: dsa_stable_def)
  ultimately show ?thesis by blast
qed

lemma dup_DSA_new_total:
  assumes "plan m = []" and "keys m new = Some kn"
  shows "dup_DSA_new new m = Some (True, m\<lparr>dsas := (dsas m)(brk m \<mapsto> (\<lambda>f. None)), brk := Suc (brk m),
           keys := (keys m)(new \<mapsto> kn\<lparr>key_dsa := Some (brk m)\<rparr>)\<rparr>)"
  using assms by (simp add: dup_DSA_new_def DSA_new_def attempt_def)


lemma rsa_step_total:
  assumes s: "rsa_stable m0 K sp np m"
    and k: "K key = Some ks" "key_rsa ks = Some sp"
    and n: "K new = Some kn" "key_rsa kn = Some np" and ne: "sp \<noteq> np"
    and f: "rsas m0 sp = Some st" "st f = Some x" "bns m0 x = Some v" "x < brk m0"
  shows "\<exists>m'. dup_rsa_field f key new m = Some (True, m') \<and> rsa_stable m0 K sp np m'"
proof -
  from s have p: "plan m = []" and ks: "keys m = K" and b: "brk m0 \<le> brk m"
    and bn: "\<forall>x<brk m0. bns m x = bns m0 x" and sp: "rsas m sp = rsas m0 sp"
    and np: "rsas m np \<noteq> None"
    by (simp_all add: rsa_stable_def)
  from np obtain nst where nst: "rsas m np = Some nst" by auto
  from bn f have bx: "bns m x = Some v" by simp
  let ?m' = "m\<lparr>bns := (bns m)(brk m \<mapsto> v), brk := Suc (brk m),
               rsas := (rsas m)(np \<mapsto> nst(f := Some (brk m)))\<rparr>"
  have "dup_rsa_field f key new m = Some (True, ?m')"
    using p ks k n f sp nst bx
    by (simp add: dup_rsa_field_def get_rsa_field_def BN_dup_def BN_new_val_def attempt_def
          set_rsa_field_def)
  moreover have "rsa_stable m0 K sp np ?m'"
    using p ks b bn sp ne by (auto simp: rsa_stable_def)
  ultimately show ?thesis by blast
qed

lemma dup_RSA_new_total:
  assumes "plan m = []" and "keys m new = Some kn"
  shows "dup_RSA_new new m = Some (True, m\<lparr>rsas := (rsas m)(brk m \<mapsto> (\<lambda>f. None)), brk := Suc (brk m),
           keys := (keys m)(new \<mapsto> kn\<lparr>key_rsa := Some (brk m)\<rparr>)\<rparr>)"
  using assms by (simp add: dup_RSA_new_def RSA_new_def attempt_def)



lemma rsa_opt_total:
  assumes s: "rsa_stable m0 K sp np m"
    and k: "K key = Some ks" "key_rsa ks = Some sp"
    and n: "K new = Some kn" "key_rsa kn = Some np" and ne: "sp \<noteq> np"
    and f: "rsas m0 sp = Some st" "bn_ok_or_null m0 (st f)" "ptr_below (brk m0) (st f)"
  shows "\<exists>m'. dup_rsa_field_opt f key new m = Some (True, m') \<and> rsa_stable m0 K sp np m'"
proof (cases "st f")
  case None
  with s k f(1) have "dup_rsa_field_opt f key new m = Some (True, m)"
    by (simp add: dup_rsa_field_opt_def get_rsa_field_def rsa_stable_def)
  with s show ?thesis by blast
next
  case (Some x)
  with f obtain v where v: "bns m0 x = Some v" "x < brk m0"
    by (auto simp: bn_ok_or_null_def ptr_below_def)
  from s k f(1) Some have "dup_rsa_field_opt f key new m = dup_rsa_field f key new m"
    by (simp add: dup_rsa_field_opt_def get_rsa_field_def rsa_stable_def)
  with rsa_step_total [OF s k n ne f(1) Some v] show ?thesis by simp
qed


lemma bn_okD:
  assumes "bn_ok m a" and "mem_ok m"
  shows "\<exists>x v. a = Some x \<and> bns m x = Some v \<and> x < brk m"
  using assms mem_okD(1) [OF assms(2)] by (auto simp: bn_ok_def split: option.splits)

lemma dup_dss_body_total:
  assumes ok: "mem_ok m" and p: "plan m = []" and k: "keys m key = Some ks"
    and n: "keys m new = Some kn" and ne: "key \<noteq> new" and r: "dsa_ready m ks"
  shows "\<exists>m'. run_steps (dup_dss_body demote key new) m = Some (True, m')"
proof -
  let ?np = "brk m"
  let ?K = "(keys m)(new \<mapsto> kn\<lparr>key_dsa := Some ?np\<rparr>)"
  let ?m1 = "m\<lparr>dsas := (dsas m)(brk m \<mapsto> (\<lambda>f. None)), brk := Suc (brk m), keys := ?K\<rparr>"
  from r obtain sp st where sp: "key_dsa ks = Some sp" and st: "dsas m sp = Some st"
    and pub: "bn_ok m (st DSA_p)" "bn_ok m (st DSA_q)" "bn_ok m (st DSA_g)"
      "bn_ok m (st DSA_pub_key)"
    and priv: "key_flags ks AND SSH_KEY_FLAG_PRIVATE = 0 \<or> bn_ok m (st DSA_priv_key)"
    by (auto simp: dsa_ready_def split: option.splits)
  from mem_okD(2) [OF ok st] have sne: "sp \<noteq> ?np" by auto
  have s1: "dup_DSA_new new m = Some (True, ?m1)" by (rule dup_DSA_new_total [OF p n])
  have t1: "dsa_stable m ?K sp ?np ?m1" using p sne by (simp add: dsa_stable_def)
  from k ne have Kk: "?K key = Some ks" by simp
  have Kn: "?K new = Some (kn\<lparr>key_dsa := Some ?np\<rparr>)" "key_dsa (kn\<lparr>key_dsa := Some ?np\<rparr>) = Some ?np"
    by simp_all
  note step = dsa_step_total [OF _ Kk sp Kn sne st]
  from bn_okD [OF pub(1) ok] step [OF t1] obtain m2 where
    s2: "dup_dsa_field DSA_p key new ?m1 = Some (True, m2)" and t2: "dsa_stable m ?K sp ?np m2"
    by blast
  from bn_okD [OF pub(2) ok] step [OF t2] obtain m3 where
    s3: "dup_dsa_field DSA_q key new m2 = Some (True, m3)" and t3: "dsa_stable m ?K sp ?np m3"
    by blast
  from bn_okD [OF pub(3) ok] step [OF t3] obtain m4 where
    s4: "dup_dsa_field DSA_g key new m3 = Some (True, m4)" and t4: "dsa_stable m ?K sp ?np m4"
    by blast
  from bn_okD [OF pub(4) ok] step [OF t4] obtain m5 where
    s5: "dup_dsa_field DSA_pub_key key new m4 = Some (True, m5)"
    and t5: "dsa_stable m ?K sp ?np m5"
    by blast
  from t5 Kk have k5: "keys m5 key = Some ks" by (simp add: dsa_stable_def)
  have "\<exists>m'. if_private demote key [dup_dsa_field DSA_priv_key key new] m5 = Some (True, m')"
  proof (cases "\<not> demote \<and> key_flags ks AND SSH_KEY_FLAG_PRIVATE \<noteq> 0")
    case True
    with priv have "bn_ok m (st DSA_priv_key)" by simp
    from bn_okD [OF this ok] step [OF t5] obtain m6 where
      "dup_dsa_field DSA_priv_key key new m5 = Some (True, m6)"
      by blast
    with True k5 show ?thesis by (simp add: if_private_def)
  next
    case False
    with k5 show ?thesis by (auto simp: if_private_def)
  qed
  then obtain m' where
    s6: "if_private demote key [dup_dsa_field DSA_priv_key key new] m5 = Some (True, m')" ..
  have "run_steps (dup_dss_body demote key new) m = Some (True, m')"
    unfolding dup_dss_body_def run_steps_Cons_True run_steps_Nil_True
    using s1 s2 s3 s4 s5 s6 by blast
  then show ?thesis ..
qed

lemma dup_rsa_body_total:
  assumes ok: "mem_ok m" and p: "plan m = []" and k: "keys m key = Some ks"
    and n: "keys m new = Some kn" and ne: "key \<noteq> new" and r: "rsa_ready m ks"
  shows "\<exists>m'. run_steps (dup_rsa_body demote key new) m = Some (True, m')"
proof -
  let ?np = "brk m"
  let ?K = "(keys m)(new \<mapsto> kn\<lparr>key_rsa := Some ?np\<rparr>)"
  let ?m1 = "m\<lparr>rsas := (rsas m)(brk m \<mapsto> (\<lambda>f. None)), brk := Suc (brk m), keys := ?K\<rparr>"
  let ?body = "[dup_rsa_field RSA_d key new,
         dup_rsa_field_opt RSA_p key new,
         dup_rsa_field_opt RSA_q key new,
         dup_rsa_field_opt RSA_dmp1 key new,
         dup_rsa_field_opt RSA_dmq1 key new,
         dup_rsa_field_opt RSA_iqmp key new]"
  from r obtain sp st where sp: "key_rsa ks = Some sp" and st: "rsas m sp = Some st"
    and pub: "bn_ok m (st RSA_n)" "bn_ok m (st RSA_e)"
    and priv: "key_flags ks AND SSH_KEY_FLAG_PRIVATE = 0 \<or>
                bn_ok m (st RSA_d) \<and>
                list_all (\<lambda>f. bn_ok_or_null m (st f))
                  [RSA_p, RSA_q, RSA_dmp1, RSA_dmq1, RSA_iqmp]"
    by (auto simp: rsa_ready_def split: option.splits)
  from mem_okD(3) [OF ok st] have sne: "sp \<noteq> ?np" and below: "ptr_below (brk m) (st f)" for f
    by auto
  have s1: "dup_RSA_new new m = Some (True, ?m1)" by (rule dup_RSA_new_total [OF p n])
  have t1: "rsa_stable m ?K sp ?np ?m1" using p sne by (simp add: rsa_stable_def)
  from k ne have Kk: "?K key = Some ks" by simp
  have Kn: "?K new = Some (kn\<lparr>key_rsa := Some ?np\<rparr>)" "key_rsa (kn\<lparr>key_rsa := Some ?np\<rparr>) = Some ?np"
    by simp_all
  note step = rsa_step_total [OF _ Kk sp Kn sne st]
  note opt = rsa_opt_total [OF _ Kk sp Kn sne st _ below]
  from bn_okD [OF pub(1) ok] step [OF t1] obtain m2 where
    s2: "dup_rsa_field RSA_n key new ?m1 = Some (True, m2)" and t2: "rsa_stable m ?K sp ?np m2"
    by blast
  from bn_okD [OF pub(2) ok] step [OF t2] obtain m3 where
    s3: "dup_rsa_field RSA_e key new m2 = Some (True, m3)" and t3: "rsa_stable m ?K sp ?np m3"
    by blast
  from t3 Kk have k3: "keys m3 key = Some ks" by (simp add: rsa_stable_def)
  have "\<exists>m'. if_private demote key ?body m3 = Some (True, m')"
  proof (cases "\<not> demote \<and> key_flags ks AND SSH_KEY_FLAG_PRIVATE \<noteq> 0")
    case True
    with priv have d: "bn_ok m (st RSA_d)"
      and o: "bn_ok_or_null m (st RSA_p)" "bn_ok_or_null m (st RSA_q)"
        "bn_ok_or_null m (st RSA_dmp1)" "bn_ok_or_null m (st RSA_dmq1)"
        "bn_ok_or_null m (st RSA_iqmp)"
      by simp_all
    from bn_okD [OF d ok] step [OF t3] obtain m4 where
      u1: "dup_rsa_field RSA_d key new m3 = Some (True, m4)" and t4: "rsa_stable m ?K sp ?np m4"
      by blast
    from opt [OF t4 o(1)] obtain m5 where
      u2: "dup_rsa_field_opt RSA_p key new m4 = Some (True, m5)"
      and t5: "rsa_stable m ?K sp ?np m5"
      by blast
    from opt [OF t5 o(2)] obtain m6 where
      u3: "dup_rsa_field_opt RSA_q key new m5 = Some (True, m6)"
      and t6: "rsa_stable m ?K sp ?np m6"
      by blast
    from opt [OF t6 o(3)] obtain m7 where
      u4: "dup_rsa_field_opt RSA_dmp1 key new m6 = Some (True, m7)"
      and t7: "rsa_stable m ?K sp ?np m7"
      by blast
    from opt [OF t7 o(4)] obtain m8 where
      u5: "dup_rsa_field_opt RSA_dmq1 key new m7 = Some (True, m8)"
      and t8: "rsa_stable m ?K sp ?np m8"
      by blast
    from opt [OF t8 o(5)] obtain m9 where
      u6: "dup_rsa_field_opt RSA_iqmp key new m8 = Some (True, m9)"
      by blast
    have "run_steps ?body m3 = Some (True, m9)"
      unfolding run_steps_Cons_True run_steps_Nil_True
      using u1 u2 u3 u4 u5 u6 by blast
    with True k3 show ?thesis by (simp add: if_private_def del: run_steps.simps)
  next
    case False
    with k3 show ?thesis by (auto simp: if_private_def simp del: run_steps.simps)
  qed
  then obtain m' where s4: "if_private demote key ?body m3 = Some (True, m')" ..
  have "run_steps (dup_rsa_body demote key new) m = Some (True, m')"
    unfolding dup_rsa_body_def run_steps_Cons_True run_steps_Nil_True
    using s1 s2 s3 s4 by blast
  then show ?thesis ..
qed

lemma dsa_ready_cong:
  "bns m' = bns m \<Longrightarrow> dsas m' = dsas m \<Longrightarrow> dsa_ready m' ks = dsa_ready m ks"
  by (simp add: dsa_ready_def bn_ok_def split: option.splits)

lemma rsa_ready_cong:
  "bns m' = bns m \<Longrightarrow> rsas m' = rsas m \<Longrightarrow> rsa_ready m' ks = rsa_ready m ks"
  by (simp add: rsa_ready_def bn_ok_def bn_ok_or_null_def split: option.splits)

lemma pki_key_dup_total:
  assumes ok: "mem_ok m" and p: "plan m = []" and k: "keys m key = Some ks"
    and r: "dup_ready m ks"
  shows "\<exists>new m'. pki_key_dup m key demote = Some (Some new, m')"
proof -
  let ?z = "\<lparr>key_type = SSH_KEYTYPE_UNKNOWN, key_flags = SSH_KEY_FLAG_EMPTY,
              key_type_c = None, key_dsa = None, key_rsa = None\<rparr>"
  let ?kn = "\<lparr>key_type = key_type ks, key_flags = key_flags ks, key_type_c = key_type_c ks,
                 key_dsa = None, key_rsa = None\<rparr>"
  let ?new = "brk m"
  let ?m1 = "m\<lparr>keys := (keys m)(brk m \<mapsto> ?z), brk := Suc (brk m)\<rparr>"
  let ?m2 = "?m1\<lparr>keys := (keys ?m1)(brk m \<mapsto> ?kn)\<rparr>"
  from mem_okD(4) [OF ok k] have ne: "key \<noteq> ?new" by auto
  have n: "ssh_key_new m = (Some ?new, ?m1)"
    using p by (simp add: ssh_key_new_def attempt_def)
  from mem_ok_alloc_key [OF ok, of ?z] have "mem_ok ?m1" by (simp add: ptr_below_def)
  from mem_ok_set_key [OF this, of ?new ?z ?kn] have ok2: "mem_ok ?m2"
    by (simp add: ptr_below_def)
  have p2: "plan ?m2 = []" using p by simp
  have k2: "keys ?m2 key = Some ks" using k ne by simp
  have n2: "keys ?m2 ?new = Some ?kn" by simp
  have "\<exists>m'. dup_switch demote key ?new (key_type ks) ?m2 = Some (True, m')"
  proof (cases "key_type ks = SSH_KEYTYPE_DSS")
    case True
    with r have "dsa_ready m ks" by (simp add: dup_ready_def)
    then have "dsa_ready ?m2 ks" using dsa_ready_cong [of ?m2 m ks] by simp
    from dup_dss_body_total [OF ok2 p2 k2 n2 ne this] True show ?thesis
      by (simp add: dup_switch_def del: run_steps.simps)
  next
    case False
    with r have t: "key_type ks = SSH_KEYTYPE_RSA \<or> key_type ks = SSH_KEYTYPE_RSA1"
      and "rsa_ready m ks"
      by (auto simp: dup_ready_def split: ssh_keytypes_e.splits)
    then have "rsa_ready ?m2 ks" using rsa_ready_cong [of ?m2 m ks] by simp
    from dup_rsa_body_total [OF ok2 p2 k2 n2 ne this] t show ?thesis
      by (auto simp: dup_switch_def simp del: run_steps.simps)
  qed
  then obtain m' where "dup_switch demote key ?new (key_type ks) ?m2 = Some (True, m')" ..
  with n k ne have "pki_key_dup m key demote = Some (Some ?new, m')"
    by (simp add: pki_key_dup_def)
  then show ?thesis by blast
qed

lemma dsa_copy_id: "priv \<or> v DSA_priv_key = None \<Longrightarrow> dsa_copy priv v = v"
  by (rule ext) (auto simp: dsa_copy_def)

lemma rsa_copy_id:
  assumes "priv \<or> list_all (\<lambda>f. v f = None) [RSA_d, RSA_p, RSA_q, RSA_dmp1, RSA_dmq1, RSA_iqmp]"
  shows "rsa_copy priv v = v"
proof (rule ext)
  fix f
  from assms show "rsa_copy priv v f = v f"
    by (cases f) (auto simp: rsa_copy_def)
qed

lemma dup_value_inv:
  assumes "key_inv kv" and "supported (kv_type kv)"
  shows "dup_value False kv = kv"
proof -
  let ?p = "private_kept False (kv_flags kv)"
  have d: "map_option (dsa_copy ?p) (kv_dsa kv) = kv_dsa kv"
  proof (cases "kv_dsa kv")
    case None
    then show ?thesis by simp
  next
    case (Some v)
    with assms(1) have "?p \<or> v DSA_priv_key = None"
      by (auto simp: key_inv_def secrets_absent_def private_kept_def)
    with Some show ?thesis by (simp add: dsa_copy_id)
  qed
  have r: "map_option (rsa_copy ?p) (kv_rsa kv) = kv_rsa kv"
  proof (cases "kv_rsa kv")
    case None
    then show ?thesis by simp
  next
    case (Some v)
    with assms(1)
    have "?p \<or> list_all (\<lambda>f. v f = None) [RSA_d, RSA_p, RSA_q, RSA_dmp1, RSA_dmq1, RSA_iqmp]"
      by (auto simp: key_inv_def secrets_absent_def private_kept_def)
    with Some show ?thesis by (simp add: rsa_copy_id)
  qed
  from assms d r show ?thesis
    by (auto simp: dup_value_def key_inv_def supported_def)
qed

text \<open>
  C10. For a handle of a supported family in a memory that satisfies the allocator's
  invariant, every duplicate that \<^verbatim>\<open>pki_key_dup\<close> returns without demotion denotes what
  the spec's duplicate of the source denotes: the family, type name and flags of the
  source, the values of its public fields, and the values of its private fields (the
  optional RSA ones exactly where the source has them) when the source is PRIVATE. The
  source denotes afterwards what it denoted before. For a source that satisfies the
  invariants of the data model, the duplicate denotes the same as the source. The
  function does return a duplicate when no allocation fails and the source has the
  fields to copy.
\<close>

theorem pki_key_dup_fidelity:
  assumes ok: "mem_ok m" and k: "keys m key = Some ks" and sup: "supported (key_type ks)"
  shows "(\<forall>new m'. pki_key_dup m key False = Some (Some new, m') \<longrightarrow>
            key_view m' new = map_option (dup_value False) (key_view m key)
          \<and> key_view m' key = key_view m key
          \<and> (\<forall>kv. key_view m key = Some kv \<and> key_inv kv \<longrightarrow> key_view m' new = Some kv))
       \<and> (plan m = [] \<and> dup_ready m ks \<longrightarrow>
            (\<exists>new m'. pki_key_dup m key False = Some (Some new, m')))"
proof (intro conjI allI impI)
  fix new m'
  assume res: "pki_key_dup m key False = Some (Some new, m')"
  from sup have "key_type ks = SSH_KEYTYPE_DSS \<or>
      (key_type ks = SSH_KEYTYPE_RSA \<or> key_type ks = SSH_KEYTYPE_RSA1)"
    by (auto simp: supported_def)
  then have v: "key_view m' new = map_option (dup_value False) (key_view m key) \<and>
         key_view m' key = key_view m key"
    using pki_key_dup_view_dss [OF res ok k] pki_key_dup_view_rsa [OF res ok k] by blast
  from v show "key_view m' new = map_option (dup_value False) (key_view m key)" ..
  from v show "key_view m' key = key_view m key" ..
  fix kv
  assume a: "key_view m key = Some kv \<and> key_inv kv"
  with k sup have "supported (kv_type kv)" by (auto simp: key_view_def)
  from dup_value_inv [OF _ this] a v show "key_view m' new = Some kv" by simp
next
  assume "plan m = [] \<and> dup_ready m ks"
  then show "\<exists>new m'. pki_key_dup m key False = Some (Some new, m')"
    using pki_key_dup_total [OF ok _ k] by blast
qed

lemma mem_ok_ex_mem: "mem_ok ex_mem"
  by (auto simp: mem_ok_def ex_mem_def ptr_below_def ex_dsa_private_def ex_dsa_public_def
      ex_rsa_private_def split: if_splits option.splits dsa_field.splits rsa_field.splits)

text \<open>
  The private RSA key at 2, which has one of the optional factors: the duplicate at 40
  denotes the same key, private exponent included.
\<close>

theorem pki_key_dup_fidelity_witness:
  "mem_ok ex_mem \<and> supported SSH_KEYTYPE_RSA
   \<and> plan ex_mem = [] \<and> map_option (dup_ready ex_mem) (keys ex_mem 2) = Some True
   \<and> (case pki_key_dup ex_mem 2 False of
        Some (Some new, m') \<Rightarrow>
          new \<noteq> 2 \<and> key_view m' new = key_view ex_mem 2 \<and>
          map_option kv_flags (key_view m' new) =
            Some (SSH_KEY_FLAG_PRIVATE OR SSH_KEY_FLAG_PUBLIC) \<and>
          map_option (\<lambda>kv. map_option (\<lambda>v. v RSA_d) (kv_rsa kv)) (key_view m' new) =
            Some (Some (Some 2753))
      | _ \<Rightarrow> False)"
proof -
  let ?ks = "\<lparr>key_type = SSH_KEYTYPE_RSA,
              key_flags = SSH_KEY_FLAG_PRIVATE OR SSH_KEY_FLAG_PUBLIC,
              key_type_c = Some ''ssh-rsa'', key_dsa = None, key_rsa = Some 3\<rparr>"
  have k: "keys ex_mem 2 = Some ?ks" by (simp add: ex_mem_def)
  have s: "supported (key_type ?ks)" by (simp add: supported_def)
  have p: "plan ex_mem = []" by (simp add: ex_mem_def)
  have r: "dup_ready ex_mem ?ks"
    by (simp add: dup_ready_def rsa_ready_def bn_ok_def bn_ok_or_null_def ex_mem_def
          ex_rsa_private_def)
  note inst = pki_key_dup_fidelity [OF mem_ok_ex_mem k s]
  from inst p r obtain new m' where res: "pki_key_dup ex_mem 2 False = Some (Some new, m')"
    by blast
  from pki_key_dup_Some [OF res mem_ok_ex_mem k] have n: "new \<noteq> 2" by auto
  let ?kv = "\<lparr>kv_type = SSH_KEYTYPE_RSA, kv_flags = SSH_KEY_FLAG_PRIVATE OR SSH_KEY_FLAG_PUBLIC,
      kv_type_c = Some ''ssh-rsa'', kv_dsa = None, kv_rsa = rsa_view ex_mem (Some 3)\<rparr>"
  have kv: "key_view ex_mem 2 = Some ?kv"
    by (simp add: key_view_def k dsa_view_def)
  have i: "key_inv ?kv"
    by (simp add: key_inv_def flag_defs)
  have d: "map_option (\<lambda>v. v RSA_d) (rsa_view ex_mem (Some 3)) = Some (Some 2753)"
    by (simp add: rsa_view_def ex_mem_def ex_rsa_private_def bn_val_def)
  from inst res kv i have "key_view m' new = Some ?kv" by blast
  with res kv d s p r k n mem_ok_ex_mem show ?thesis by simp
qed

text \<open>The flags of a duplicate are those of its source, with and without demotion.\<close>

lemma pki_key_dup_flags:
  assumes ok: "mem_ok m" and k: "keys m key = Some ks" and sup: "supported (key_type ks)"
    and res: "pki_key_dup m key demote = Some (Some new, m')"
  shows "map_option key_flags (keys m' new) = Some (key_flags ks)"
proof -
  from sup have "key_type ks = SSH_KEYTYPE_DSS \<or>
      (key_type ks = SSH_KEYTYPE_RSA \<or> key_type ks = SSH_KEYTYPE_RSA1)"
    by (auto simp: supported_def)
  then have "key_view m' new = map_option (dup_value demote) (key_view m key)"
    using pki_key_dup_view_dss [OF res ok k] pki_key_dup_view_rsa [OF res ok k] by blast
  then have "map_option kv_flags (key_view m' new) =
      map_option (\<lambda>kv. kv_flags (dup_value demote kv)) (key_view m key)"
    by (simp add: option.map_comp comp_def)
  also have "\<dots> = Some (key_flags ks)"
    using k by (simp add: key_view_def dup_value_def)
  finally show ?thesis
    by (simp add: key_view_def option.map_comp comp_def)
qed

text \<open>
  C1. The claim is that a demoting duplicate carries the flag PUBLIC only. The function
  copies the flags of the source before it looks at \<^verbatim>\<open>demote\<close>, and \<^verbatim>\<open>demote\<close> only keeps
  the private value from being copied. The demoted copy of the private DSA key at 0
  carries PRIVATE and PUBLIC and has no private value; duplicating that copy without
  demotion then fails, although every allocation succeeds, because the flag sends the
  function to copy the missing private value.
\<close>

theorem pki_key_dup_demote_keeps_private_flag:
  "map_option key_flags (keys ex_mem 0) = Some (SSH_KEY_FLAG_PRIVATE OR SSH_KEY_FLAG_PUBLIC)
   \<and> (case pki_key_dup ex_mem 0 True of
        Some (Some new, m') \<Rightarrow>
          map_option key_flags (keys m' new) =
            Some (SSH_KEY_FLAG_PRIVATE OR SSH_KEY_FLAG_PUBLIC) \<and>
          map_option key_flags (keys m' new) \<noteq> Some SSH_KEY_FLAG_PUBLIC \<and>
          get_dsa_field m' new DSA_priv_key = Some None \<and>
          plan m' = [] \<and>
          map_option fst (pki_key_dup m' new False) = Some None
      | _ \<Rightarrow> False)"
  by (simp add: ex_mem_def ex_dsa_private_def dup_defs heap_defs flag_defs)

section \<open>Failure paths\<close>

text \<open>
  After a build that returns \<^verbatim>\<open>SSH_ERROR\<close>, the payload pointer of the handle is NULL (the
  struct was not allocated) or points to the struct that the failure path has freed.
\<close>

lemma pki_pubkey_build_dss_error:
  assumes b: "pki_pubkey_build_dss m key p q g pubkey = Some (rc, m')" and e: "rc \<noteq> SSH_OK"
    and k: "keys m key = Some ks"
  shows "\<exists>d. keys m' key = Some (ks\<lparr>key_dsa := d\<rparr>) \<and>
           (case d of None \<Rightarrow> True | Some x \<Rightarrow> dsas m' x = None)"
proof -
  obtain d m0 where n: "DSA_new m = (d, m0)" by (cases "DSA_new m")
  from DSA_new_frame [OF n] have k0: "keys m0 = keys m" by simp
  let ?m1 = "m0\<lparr>keys := (keys m0)(key \<mapsto> ks\<lparr>key_dsa := d\<rparr>)\<rparr>"
  show ?thesis
  proof (cases d)
    case None
    with b n k k0 show ?thesis
      by (auto simp: pki_pubkey_build_dss_def)
  next
    case (Some x)
    with b e n k k0 obtain m2 m3 m4 m5 k5 where
      s: "build_dsa_field DSA_p p key ?m1 = Some m2" "build_dsa_field DSA_q q key m2 = Some m3"
         "build_dsa_field DSA_g g key m3 = Some m4"
         "build_dsa_field DSA_pub_key pubkey key m4 = Some m5"
      and r: "keys m5 key = Some k5" "DSA_free m5 (key_dsa k5) = Some m'"
      by (auto simp: pki_pubkey_build_dss_def Let_def split: Option.bind_splits if_splits)
    from s have k5: "keys m5 = keys ?m1"
      by (auto dest!: build_dsa_field_frame)
    with r(1) Some have d5: "key_dsa k5 = Some x" by auto
    from r(2) d5 have "dsas m' x = None"
      by (auto simp: DSA_free_def split: option.splits)
    moreover from r(2) have "keys m' = keys m5"
      by (auto dest!: DSA_free_frame)
    ultimately show ?thesis using k5 k0 Some by auto
  qed
qed

lemma pki_pubkey_build_rsa_error:
  assumes b: "pki_pubkey_build_rsa m key e n = Some (rc, m')" and e: "rc \<noteq> SSH_OK"
    and k: "keys m key = Some ks"
  shows "\<exists>r. keys m' key = Some (ks\<lparr>key_rsa := r\<rparr>) \<and>
           (case r of None \<Rightarrow> True | Some x \<Rightarrow> rsas m' x = None)"
proof -
  obtain d m0 where n: "RSA_new m = (d, m0)" by (cases "RSA_new m")
  from RSA_new_frame [OF n] have k0: "keys m0 = keys m" by simp
  let ?m1 = "m0\<lparr>keys := (keys m0)(key \<mapsto> ks\<lparr>key_rsa := d\<rparr>)\<rparr>"
  show ?thesis
  proof (cases d)
    case None
    with b n k k0 show ?thesis
      by (auto simp: pki_pubkey_build_rsa_def)
  next
    case (Some x)
    with b e n k k0 obtain m2 m3 k3 where
      s: "build_rsa_field RSA_e e key ?m1 = Some m2" "build_rsa_field RSA_n n key m2 = Some m3"
      and r: "keys m3 key = Some k3" "RSA_free m3 (key_rsa k3) = Some m'"
      by (auto simp: pki_pubkey_build_rsa_def Let_def split: Option.bind_splits if_splits)
    from s have k3: "keys m3 = keys ?m1"
      by (auto dest!: build_rsa_field_frame)
    with r(1) Some have d3: "key_rsa k3 = Some x" by auto
    from r(2) d3 have "rsas m' x = None"
      by (auto simp: RSA_free_def split: option.splits)
    moreover from r(2) have "keys m' = keys m3"
      by (auto dest!: RSA_free_frame)
    ultimately show ?thesis using k3 k0 Some by auto
  qed
qed

text \<open>
  C8. The claim is that a failed duplicate or build leaves nothing dangling behind.
  A build whose second conversion fails (the plan lets the struct and the first BIGNUM
  be allocated and refuses the next) returns \<^verbatim>\<open>SSH_ERROR\<close> after freeing the payload struct,
  and the handle still points to the struct just freed: the payload pointer is not
  reset, so that releasing the handle afterwards frees the struct a second time. This
  holds for both builders. The failure path of the duplicator releases the whole new
  handle instead: a duplicate whose copy of q fails returns NULL and leaves the stores
  as they were.
\<close>

theorem failed_build_leaves_dangling_payload:
  "(case pki_pubkey_build_dss (ex_mem\<lparr>plan := [True, True, False]\<rparr>) 7 [23] [11] [4] [8] of
      Some (rc, m') \<Rightarrow>
        rc = SSH_ERROR \<and> map_option key_dsa (keys m' 7) = Some (Some 40) \<and>
        dsas m' 40 = None \<and> dsa_view m' (Some 40) = None \<and> ssh_key_free m' (Some 7) = None
    | None \<Rightarrow> False)
   \<and> (case pki_pubkey_build_rsa (ex_mem\<lparr>plan := [True, False]\<rparr>) 7 [1, 0, 1] [12, 161] of
      Some (rc, m') \<Rightarrow>
        rc = SSH_ERROR \<and> map_option key_rsa (keys m' 7) = Some (Some 40) \<and>
        rsas m' 40 = None \<and> rsa_view m' (Some 40) = None \<and> ssh_key_free m' (Some 7) = None
    | None \<Rightarrow> False)
   \<and> (case pki_key_dup (ex_mem\<lparr>plan := [True, True, True, False]\<rparr>) 0 False of
      Some (None, m') \<Rightarrow>
        bns m' = bns ex_mem \<and> dsas m' = dsas ex_mem \<and> rsas m' = rsas ex_mem \<and>
        keys m' = keys ex_mem
    | _ \<Rightarrow> False)"
  by (simp add: ex_mem_def ex_dsa_private_def build_defs dup_defs heap_defs flag_defs
        dsa_view_def rsa_view_def)


end
